theory Spec2Isabelle
  imports Main "HOL-Library.Word"
begin

section \<open>Kernel capture backend (v4l2\_camera.cpp)\<close>

subsection \<open>Data\<close>

text \<open>
  A \<open>void*\<close> slot of \<open>buffer_start_\<close>: the null pointer, \<open>MAP_FAILED\<close>
  (\<open>(void*)-1\<close>) or the start address of a mapping.
\<close>

datatype ptr = Null | MapFailed | Addr nat

text \<open>
  The fields of \<open>struct v4l2_buffer\<close> that the code reads or writes. All are
  \<open>__u32\<close>; \<open>bytesused\<close>, which the code converts to \<open>int\<close>, is kept as a
  32-bit word.
\<close>

record v4l2_buffer =
  b_type :: nat
  b_memory :: nat
  b_index :: nat
  b_length :: nat
  b_offset :: nat
  b_bytesused :: "32 word"

definition V4L2_BUF_TYPE_VIDEO_CAPTURE :: nat where
  "V4L2_BUF_TYPE_VIDEO_CAPTURE = 1"

definition V4L2_MEMORY_MMAP :: nat where
  "V4L2_MEMORY_MMAP = 1"

text \<open>\<open>memset(&buf, 0, sizeof(buf))\<close>.\<close>

definition zero_buffer :: v4l2_buffer where
  "zero_buffer = \<lparr>b_type = 0, b_memory = 0, b_index = 0, b_length = 0,
                   b_offset = 0, b_bytesused = 0\<rparr>"

text \<open>The private fields of \<open>class V4L2Camera\<close> (the source's names end in an
  underscore, which a HOL name cannot); a null array pointer is \<open>None\<close>.\<close>

record v4l2_camera =
  fd :: int
  current_buffer :: v4l2_buffer
  buffers :: "v4l2_buffer list option"
  buffer_start :: "ptr list option"
  buffer_count :: int
  streaming :: bool

text \<open>
  One constructor per failing return of the source, named after its log line.
  \<open>BadArrayNewLength\<close> is not a return: it is the exception that \<open>new[]\<close> throws
  on a negative length, which no function of the camera catches.
\<close>

datatype error =
    OpenFailed | InvalidFd | QueryCapFailed | NoVideoCapture | NoStreaming
  | SetFormatFailed | ReqBufsFailed | InsufficientBuffers | QueryBufFailed
  | MappingFailed | BadArrayNewLength | QueueFailed | StreamOnFailed | StreamOffFailed
  | NotStreaming | WouldBlock | DequeueFailed

datatype status = Success | Failure error

subsection \<open>The operating system and the driver, as the code sees them\<close>

text \<open>
  Occupancy of a driver buffer as in the data model of the specification: free or
  queued to the device (one state), or dequeued to the caller.
\<close>

datatype occupancy = Queued | InFlight

text \<open>
  The part of the process and driver state that the calls of the camera act on: the open
  descriptors, the live mappings (start address and length), the next free address, the
  occupancy of the buffers of the current request, whether the driver streams, the format
  the driver holds (width, height, fourcc), and counters of \<open>munmap\<close> and
  \<open>close\<close> calls on something that is not live (a double release).
\<close>

record kernel =
  open_fds :: "int list"
  mappings :: "(nat \<times> nat) list"
  next_addr :: nat
  slots :: "occupancy list"
  k_streaming :: bool
  k_format :: "int \<times> int \<times> int"
  bad_munmaps :: nat
  bad_closes :: nat

definition fd_ok :: "kernel \<Rightarrow> int \<Rightarrow> bool" where
  "fd_ok k h = (h \<in> set (open_fds k))"

text \<open>
  \<open>VIDIOC_REQBUFS\<close>: fails on a bad descriptor or when the driver says so
  (\<open>None\<close>); otherwise the driver grants a count of buffers, all free, and writes the
  count to the \<open>__u32\<close> field \<open>req.count\<close>.
\<close>

definition k_reqbufs :: "kernel \<Rightarrow> int \<Rightarrow> 32 word option \<Rightarrow> (32 word \<times> kernel) option" where
  "k_reqbufs k h resp =
     (if \<not> fd_ok k h then None
      else case resp of
             None \<Rightarrow> None
           | Some c \<Rightarrow> Some (c, k\<lparr>slots := replicate (unat c) Queued\<rparr>))"

text \<open>\<open>VIDIOC_QUERYBUF\<close>: length and offset of buffer \<open>i\<close>, or failure.\<close>

definition k_querybuf :: "kernel \<Rightarrow> int \<Rightarrow> nat \<Rightarrow> (nat \<times> nat) option \<Rightarrow> (nat \<times> nat) option" where
  "k_querybuf k h i resp = (if \<not> fd_ok k h then None else resp)"

text \<open>\<open>mmap\<close>: a fresh region at the next free address, or \<open>MAP_FAILED\<close>.\<close>

definition k_mmap :: "kernel \<Rightarrow> int \<Rightarrow> nat \<Rightarrow> bool \<Rightarrow> ptr \<times> kernel" where
  "k_mmap k h len ok =
     (if fd_ok k h \<and> ok
      then (Addr (next_addr k),
            k\<lparr>mappings := mappings k @ [(next_addr k, len)],
              next_addr := next_addr k + len + 1\<rparr>)
      else (MapFailed, k))"

text \<open>
  \<open>munmap(addr, len)\<close>: removes the mapping that starts at \<open>addr\<close>; a call on an
  address with no live mapping is counted.
\<close>

definition k_munmap :: "kernel \<Rightarrow> nat \<Rightarrow> nat \<Rightarrow> kernel" where
  "k_munmap k a len =
     (if a \<in> fst ` set (mappings k)
      then k\<lparr>mappings := filter (\<lambda>m. fst m \<noteq> a) (mappings k)\<rparr>
      else k\<lparr>bad_munmaps := bad_munmaps k + 1\<rparr>)"

text \<open>
  \<open>VIDIOC_QBUF\<close>: refused on a bad descriptor, a device fault, a buffer type or memory
  kind other than the capture/mmap pair, or an index outside the current request;
  otherwise the buffer is queued.
\<close>

definition k_qbuf :: "kernel \<Rightarrow> int \<Rightarrow> v4l2_buffer \<Rightarrow> bool \<Rightarrow> kernel option" where
  "k_qbuf k h buf fault =
     (if \<not> fd_ok k h \<or> fault \<or> b_type buf \<noteq> V4L2_BUF_TYPE_VIDEO_CAPTURE
         \<or> b_memory buf \<noteq> V4L2_MEMORY_MMAP \<or> \<not> b_index buf < length (slots k)
      then None
      else Some (k\<lparr>slots := (slots k)[b_index buf := Queued]\<rparr>))"

definition k_streamon :: "kernel \<Rightarrow> int \<Rightarrow> bool \<Rightarrow> kernel option" where
  "k_streamon k h ok = (if fd_ok k h \<and> ok then Some (k\<lparr>k_streaming := True\<rparr>) else None)"

definition k_streamoff :: "kernel \<Rightarrow> int \<Rightarrow> bool \<Rightarrow> kernel option" where
  "k_streamoff k h ok = (if fd_ok k h \<and> ok then Some (k\<lparr>k_streaming := False\<rparr>) else None)"

subsection \<open>freeBuffers\<close>

text \<open>
  The loop of \<open>freeBuffers\<close> over \<open>i < buffer_count_\<close>: slot \<open>i\<close> is unmapped
  with \<open>buffers_[i].length\<close> unless it is null or \<open>MAP_FAILED\<close>.
\<close>

fun munmap_loop :: "kernel \<Rightarrow> (ptr \<times> v4l2_buffer) list \<Rightarrow> kernel" where
  "munmap_loop k [] = k"
| "munmap_loop k ((p, b) # rest) =
     (case p of
        Addr a \<Rightarrow> munmap_loop (k_munmap k a (b_length b)) rest
      | _ \<Rightarrow> munmap_loop k rest)"

definition freeBuffers :: "v4l2_camera \<Rightarrow> kernel \<Rightarrow> v4l2_camera \<times> kernel" where
  "freeBuffers s k =
     (let k1 = (case buffer_start s of
                  None \<Rightarrow> k
                | Some ps \<Rightarrow>
                    munmap_loop k (take (nat (buffer_count s))
                                     (zip ps (case buffers s of None \<Rightarrow> [] | Some bs \<Rightarrow> bs))))
      in (s\<lparr>buffer_start := None, buffers := None, buffer_count := 0\<rparr>, k1))"

subsection \<open>initBuffers\<close>

text \<open>
  What the driver and the allocator answer during one \<open>initBuffers\<close>: the count
  granted by \<open>VIDIOC_REQBUFS\<close>, the answer to \<open>VIDIOC_QUERYBUF\<close> per index, whether
  \<open>mmap\<close> succeeds per index, and the indeterminate initial contents of the two
  arrays made by \<open>new[]\<close>, which the source does not initialise.
\<close>

record init_env =
  reqbufs_resp :: "32 word option"
  querybuf_resp :: "nat \<Rightarrow> (nat \<times> nat) option"
  mmap_ok :: "nat \<Rightarrow> bool"
  garbage_start :: "nat \<Rightarrow> ptr"
  garbage_buf :: "nat \<Rightarrow> v4l2_buffer"

text \<open>The mapping loop; it stops at the first failure, before the rollback.\<close>

fun map_loop :: "init_env \<Rightarrow> int \<Rightarrow> nat list \<Rightarrow> ptr list \<Rightarrow> v4l2_buffer list \<Rightarrow> kernel
                 \<Rightarrow> error option \<times> ptr list \<times> v4l2_buffer list \<times> kernel" where
  "map_loop e h [] ps bs k = (None, ps, bs, k)"
| "map_loop e h (i # is) ps bs k =
     (case k_querybuf k h i (querybuf_resp e i) of
        None \<Rightarrow> (Some QueryBufFailed, ps, bs, k)
      | Some (len, off) \<Rightarrow>
          (let buf = zero_buffer\<lparr>b_type := V4L2_BUF_TYPE_VIDEO_CAPTURE,
                                  b_memory := V4L2_MEMORY_MMAP, b_index := i,
                                  b_length := len, b_offset := off\<rparr>;
               (p, k1) = k_mmap k h len (mmap_ok e i);
               ps1 = ps[i := p]
           in if p = MapFailed then (Some MappingFailed, ps1, bs, k1)
              else map_loop e h is ps1 (bs[i := buf]) k1))"

text \<open>
  \<open>initBuffers\<close>. The comparison \<open>req.count < 2\<close> is unsigned; the assignment to
  the \<open>int\<close> field \<open>buffer_count_\<close> reads the same 32 bits as signed, and a negative
  length makes \<open>new[]\<close> throw after \<open>buffer_count_\<close> has been assigned.
\<close>

definition initBuffers :: "init_env \<Rightarrow> v4l2_camera \<Rightarrow> kernel \<Rightarrow> status \<times> v4l2_camera \<times> kernel" where
  "initBuffers e s k =
     (case k_reqbufs k (fd s) (reqbufs_resp e) of
        None \<Rightarrow> (Failure ReqBufsFailed, s, k)
      | Some (c, k1) \<Rightarrow>
          if c < 2 then (Failure InsufficientBuffers, s, k1)
          else if sint c < 0 then (Failure BadArrayNewLength, s\<lparr>buffer_count := sint c\<rparr>, k1)
          else
            (let n = nat (sint c)
             in case map_loop e (fd s) [0..<n] (map (garbage_start e) [0..<n])
                       (map (garbage_buf e) [0..<n]) k1 of
                  (r, ps, bs, k2) \<Rightarrow>
                    (let s1 = s\<lparr>buffer_count := sint c, buffers := Some bs,
                                buffer_start := Some ps\<rparr>
                     in case r of
                          None \<Rightarrow> (Success, s1, k2)
                        | Some err \<Rightarrow>
                            (case freeBuffers s1 k2 of (s2, k3) \<Rightarrow> (Failure err, s2, k3)))))"

subsection \<open>startStreaming and stopStreaming\<close>

text \<open>
  The driver's answers during one \<open>startStreaming\<close>: those of the pool set-up, whether
  queueing buffer \<open>i\<close> hits a device fault, and whether \<open>VIDIOC_STREAMON\<close> succeeds.
\<close>

record start_env =
  init :: init_env
  qbuf_fault :: "nat \<Rightarrow> bool"
  streamon_ok :: bool

fun queue_loop :: "start_env \<Rightarrow> int \<Rightarrow> nat list \<Rightarrow> kernel \<Rightarrow> bool \<times> kernel" where
  "queue_loop e h [] k = (True, k)"
| "queue_loop e h (i # is) k =
     (case k_qbuf k h (zero_buffer\<lparr>b_type := V4L2_BUF_TYPE_VIDEO_CAPTURE,
                                     b_memory := V4L2_MEMORY_MMAP, b_index := i\<rparr>)
             (qbuf_fault e i) of
        None \<Rightarrow> (False, k)
      | Some k1 \<Rightarrow> queue_loop e h is k1)"

definition startStreaming :: "start_env \<Rightarrow> v4l2_camera \<Rightarrow> kernel \<Rightarrow> status \<times> v4l2_camera \<times> kernel" where
  "startStreaming e s k =
     (case initBuffers (init e) s k of
        (Failure err, s1, k1) \<Rightarrow> (Failure err, s1, k1)
      | (Success, s1, k1) \<Rightarrow>
          (case queue_loop e (fd s1) [0..<nat (buffer_count s1)] k1 of
             (False, k2) \<Rightarrow> (Failure QueueFailed, s1, k2)
           | (True, k2) \<Rightarrow>
               (case k_streamon k2 (fd s1) (streamon_ok e) of
                  None \<Rightarrow> (Failure StreamOnFailed, s1, k2)
                | Some k3 \<Rightarrow> (Success, s1\<lparr>streaming := True\<rparr>, k3))))"

definition stopStreaming :: "bool \<Rightarrow> v4l2_camera \<Rightarrow> kernel \<Rightarrow> status \<times> v4l2_camera \<times> kernel" where
  "stopStreaming off_ok s k =
     (if \<not> streaming s then (Success, s, k)
      else case k_streamoff k (fd s) off_ok of
             None \<Rightarrow> (Failure StreamOffFailed, s, k)
           | Some k1 \<Rightarrow> (Success, s\<lparr>streaming := False\<rparr>, k1))"

subsection \<open>open, openByFd, close\<close>

text \<open>The constructor: no descriptor, no pool, a zeroed current buffer.\<close>

definition new_camera :: v4l2_camera where
  "new_camera = \<lparr>fd = - 1, current_buffer = zero_buffer, buffers = None,
                  buffer_start = None, buffer_count = 0, streaming = False\<rparr>"

text \<open>
  \<open>::open\<close>: on success a descriptor that is not in use (the code does not depend on
  which one), else \<open>-1\<close>. \<open>::close\<close>: releases the descriptor; a call on a descriptor
  that is not open is counted.
\<close>

definition k_open :: "kernel \<Rightarrow> bool \<Rightarrow> int \<times> kernel" where
  "k_open k ok =
     (if ok then (let h = fold max (open_fds k) (- 1) + 1
                  in (h, k\<lparr>open_fds := h # open_fds k\<rparr>))
      else (- 1, k))"

definition k_close :: "kernel \<Rightarrow> int \<Rightarrow> kernel" where
  "k_close k h =
     (if h \<in> set (open_fds k) then k\<lparr>open_fds := removeAll h (open_fds k)\<rparr>
      else k\<lparr>bad_closes := bad_closes k + 1\<rparr>)"

definition V4L2_CAP_VIDEO_CAPTURE :: "32 word" where
  "V4L2_CAP_VIDEO_CAPTURE = 0x00000001"

definition V4L2_CAP_STREAMING :: "32 word" where
  "V4L2_CAP_STREAMING = 0x04000000"

text \<open>
  \<open>queryCapabilities\<close>: \<open>VIDIOC_QUERYCAP\<close> fails on a bad descriptor or when the
  driver says so (\<open>None\<close>); otherwise the capability word is tested.
\<close>

definition queryCapabilities :: "32 word option \<Rightarrow> v4l2_camera \<Rightarrow> kernel \<Rightarrow> status" where
  "queryCapabilities cap s k =
     (case (if fd_ok k (fd s) then cap else None) of
        None \<Rightarrow> Failure QueryCapFailed
      | Some c \<Rightarrow>
          if and c V4L2_CAP_VIDEO_CAPTURE = 0 then Failure NoVideoCapture
          else if and c V4L2_CAP_STREAMING = 0 then Failure NoStreaming
          else Success)"

definition "open" :: "bool \<Rightarrow> 32 word option \<Rightarrow> v4l2_camera \<Rightarrow> kernel \<Rightarrow> status \<times> v4l2_camera \<times> kernel" where
  "open open_ok cap s k =
     (case k_open k open_ok of
        (h, k1) \<Rightarrow>
          (let s1 = s\<lparr>fd := h\<rparr>
           in if h < 0 then (Failure OpenFailed, s1, k1)
              else case queryCapabilities cap s1 k1 of
                     Failure err \<Rightarrow> (Failure err, s1\<lparr>fd := - 1\<rparr>, k_close k1 h)
                   | Success \<Rightarrow> (Success, s1, k1)))"

definition openByFd :: "int \<Rightarrow> 32 word option \<Rightarrow> v4l2_camera \<Rightarrow> kernel \<Rightarrow> status \<times> v4l2_camera \<times> kernel" where
  "openByFd h cap s k =
     (if h < 0 then (Failure InvalidFd, s, k)
      else (let s1 = s\<lparr>fd := h\<rparr>
            in case queryCapabilities cap s1 k of
                 Failure err \<Rightarrow> (Failure err, s1\<lparr>fd := - 1\<rparr>, k)
               | Success \<Rightarrow> (Success, s1, k)))"

text \<open>\<open>close\<close>; the argument is the driver's answer to \<open>VIDIOC_STREAMOFF\<close>.\<close>

definition close :: "bool \<Rightarrow> v4l2_camera \<Rightarrow> kernel \<Rightarrow> v4l2_camera \<times> kernel" where
  "close off_ok s k =
     (let (s1, k1) = (if streaming s
                      then (case stopStreaming off_ok s k of (r, s', k') \<Rightarrow> (s', k'))
                      else (s, k));
          (s2, k2) = freeBuffers s1 k1
      in if 0 \<le> fd s2 then (s2\<lparr>fd := - 1\<rparr>, k_close k2 (fd s2)) else (s2, k2))"

subsection \<open>setFormat\<close>

text \<open>
  \<open>VIDIOC_S_FMT\<close>: fails on a bad descriptor or when the driver refuses (\<open>None\<close>);
  otherwise the driver writes back the format it accepted and holds it.
\<close>

definition k_s_fmt :: "kernel \<Rightarrow> int \<Rightarrow> (int \<times> int \<times> int) option
                        \<Rightarrow> ((int \<times> int \<times> int) \<times> kernel) option" where
  "k_s_fmt k h resp =
     (if \<not> fd_ok k h then None
      else case resp of None \<Rightarrow> None | Some f \<Rightarrow> Some (f, k\<lparr>k_format := f\<rparr>))"

text \<open>
  \<open>setFormat\<close>: the structure written back by the driver is a local of the function;
  the function returns a flag.
\<close>

definition setFormat :: "(int \<times> int \<times> int) option \<Rightarrow> int \<Rightarrow> int \<Rightarrow> int \<Rightarrow> v4l2_camera \<Rightarrow> kernel
                          \<Rightarrow> status \<times> v4l2_camera \<times> kernel" where
  "setFormat resp width height pixelFormat s k =
     (case k_s_fmt k (fd s) resp of
        None \<Rightarrow> (Failure SetFormatFailed, s, k)
      | Some (fmt, k1) \<Rightarrow> (Success, s, k1))"

subsection \<open>getFrame and releaseFrame\<close>

text \<open>
  The driver's answer to \<open>VIDIOC_DQBUF\<close>: a filled buffer (index, and the
  \<open>__u32\<close> count of bytes used), nothing ready yet (\<open>EAGAIN\<close>), or another error.
\<close>

datatype dq_resp = DqReady nat "32 word" | DqAgain | DqError

datatype dq_result = DqOk v4l2_buffer kernel | DqEAGAIN | DqFailed

text \<open>
  A buffer is handed out only while the driver streams and only if it is queued; any
  other answer is a failed call.
\<close>

definition k_dqbuf :: "kernel \<Rightarrow> int \<Rightarrow> v4l2_buffer \<Rightarrow> dq_resp \<Rightarrow> dq_result" where
  "k_dqbuf k h buf resp =
     (if \<not> fd_ok k h then DqFailed
      else case resp of
             DqAgain \<Rightarrow> DqEAGAIN
           | DqError \<Rightarrow> DqFailed
           | DqReady i n \<Rightarrow>
               if k_streaming k \<and> i < length (slots k) \<and> slots k ! i = Queued
               then DqOk (buf\<lparr>b_index := i, b_bytesused := n\<rparr>)
                         (k\<lparr>slots := (slots k)[i := InFlight]\<rparr>)
               else DqFailed)"

text \<open>
  \<open>getFrame\<close> returns the pointer and the size through its out-parameters; the size
  is an \<open>int\<close>, so the 32 bits of \<open>bytesused\<close> are read as signed. Reading \<open>buffer_start_[index]\<close> through a null array or beyond
  its end is the failure \<open>Crash\<close>.
\<close>

datatype frame_result = Frame ptr int | NoFrame error | Crash

definition getFrame :: "dq_resp \<Rightarrow> v4l2_camera \<Rightarrow> kernel \<Rightarrow> frame_result \<times> v4l2_camera \<times> kernel" where
  "getFrame resp s k =
     (if \<not> streaming s then (NoFrame NotStreaming, s, k)
      else (let cb = zero_buffer\<lparr>b_type := V4L2_BUF_TYPE_VIDEO_CAPTURE,
                                  b_memory := V4L2_MEMORY_MMAP\<rparr>;
                s1 = s\<lparr>current_buffer := cb\<rparr>
            in case k_dqbuf k (fd s) cb resp of
                 DqEAGAIN \<Rightarrow> (NoFrame WouldBlock, s1, k)
               | DqFailed \<Rightarrow> (NoFrame DequeueFailed, s1, k)
               | DqOk b k1 \<Rightarrow>
                   (let s2 = s\<lparr>current_buffer := b\<rparr>
                    in case buffer_start s of
                         None \<Rightarrow> (Crash, s2, k1)
                       | Some ps \<Rightarrow>
                           if b_index b < length ps
                           then (Frame (ps ! b_index b) (sint (b_bytesused b)), s2, k1)
                           else (Crash, s2, k1))))"

text \<open>
  \<open>releaseFrame\<close>: queues \<open>current_buffer_\<close> again, whatever it holds; a refusal is
  logged only. The flag is a device fault at this call.
\<close>

definition releaseFrame :: "bool \<Rightarrow> v4l2_camera \<Rightarrow> kernel \<Rightarrow> v4l2_camera \<times> kernel" where
  "releaseFrame fault s k =
     (case k_qbuf k (fd s) (current_buffer s) fault of
        None \<Rightarrow> (s, k)
      | Some k1 \<Rightarrow> (s, k1))"

section \<open>USB bulk backend (uvc\_camera\_impl.cpp)\<close>

subsection \<open>Data\<close>

text \<open>
  What the USB host API reports for a device: per interface its class, its subclass, its
  endpoints (type and direction) and whether \<open>claimInterface\<close> on it is granted.
\<close>

record usb_endpoint =
  ep_type :: int
  ep_direction :: int

record usb_interface =
  if_class :: int
  if_subclass :: int
  if_endpoints :: "usb_endpoint list"
  if_claimable :: bool

type_synonym usb_device = "usb_interface list"

definition UVC_INTERFACE_CLASS :: int where
  "UVC_INTERFACE_CLASS = 0x0E"

definition UVC_INTERFACE_SUBCLASS_STREAMING :: int where
  "UVC_INTERFACE_SUBCLASS_STREAMING = 0x02"

text \<open>
  The host side: live JNI global references, the next reference to hand out, the indices
  of the claimed interfaces, the live heap blocks of \<open>new[]\<close>, the next block, and a
  counter of deletions of something that is not live.
\<close>

record usb_host =
  global_refs :: "nat list"
  next_ref :: nat
  claimed :: "nat list"
  heap_blocks :: "nat list"
  next_block :: nat
  bad_deletes :: nat

text \<open>
  The private fields of \<open>class UVCCamera\<close> (prefixed with \<open>u_\<close>): whether
  \<open>env_\<close> is set, the three global references, the format, the streaming flag and
  the frame buffer. \<open>u_endpoint_at\<close> is not a field of the class: it records which
  endpoint (interface index, endpoint index) \<open>bulkEndpoint_\<close> refers to.
\<close>

record uvc_camera =
  u_env :: bool
  u_usbConnection :: "nat option"
  u_usbDevice :: "nat option"
  u_bulkEndpoint :: "nat option"
  u_endpoint_at :: "(nat \<times> nat) option"
  u_width :: int
  u_height :: int
  u_streaming :: bool
  u_frameBuffer :: "nat option"
  u_frameBufferSize :: int

datatype uvc_error =
    ClassNotFound | NoStreamingInterface | NoBulkEndpoint | NoEndpointAvailable
  | BadArrayLength | NegotiationFailed

datatype uvc_status = UOk | UFail uvc_error

definition new_uvc_camera :: uvc_camera where
  "new_uvc_camera = \<lparr>u_env = False, u_usbConnection = None, u_usbDevice = None,
                      u_bulkEndpoint = None, u_endpoint_at = None, u_width = 640,
                      u_height = 480, u_streaming = False, u_frameBuffer = None,
                      u_frameBufferSize = 0\<rparr>"

definition NewGlobalRef :: "usb_host \<Rightarrow> nat \<times> usb_host" where
  "NewGlobalRef h = (next_ref h, h\<lparr>global_refs := next_ref h # global_refs h,
                                    next_ref := next_ref h + 1\<rparr>)"

definition DeleteGlobalRef :: "usb_host \<Rightarrow> nat \<Rightarrow> usb_host" where
  "DeleteGlobalRef h r =
     (if r \<in> set (global_refs h) then h\<lparr>global_refs := removeAll r (global_refs h)\<rparr>
      else h\<lparr>bad_deletes := bad_deletes h + 1\<rparr>)"

subsection \<open>Interface and endpoint discovery\<close>

text \<open>
  The loop of \<open>findStreamingInterface\<close> from index \<open>i\<close>: an interface of the
  streaming class and subclass is claimed; when the claim is refused the loop goes on to
  the next interface. The result is the index of the interface claimed.
\<close>

fun claim_loop :: "usb_interface list \<Rightarrow> nat \<Rightarrow> nat option" where
  "claim_loop [] i = None"
| "claim_loop (x # xs) i =
     (if if_class x = UVC_INTERFACE_CLASS \<and> if_subclass x = UVC_INTERFACE_SUBCLASS_STREAMING
      then (if if_claimable x then Some i else claim_loop xs (i + 1))
      else claim_loop xs (i + 1))"

definition findStreamingInterface :: "bool \<Rightarrow> usb_device \<Rightarrow> uvc_camera \<Rightarrow> usb_host
                                       \<Rightarrow> uvc_status \<times> uvc_camera \<times> usb_host" where
  "findStreamingInterface class_found dev s h =
     (if \<not> class_found then (UFail ClassNotFound, s, h)
      else case claim_loop dev 0 of
             Some i \<Rightarrow> (UOk, s, h\<lparr>claimed := i # claimed h\<rparr>)
           | None \<Rightarrow> (UFail NoStreamingInterface, s, h))"

text \<open>
  The inner loop of \<open>findBulkEndpoint\<close> over the endpoints of one interface, and the
  outer loop over all the interfaces of the device, each from an index on.
\<close>

fun endpoint_loop :: "usb_endpoint list \<Rightarrow> nat \<Rightarrow> nat option" where
  "endpoint_loop [] j = None"
| "endpoint_loop (ep # eps) j =
     (if ep_type ep = 2 \<and> ep_direction ep = 128 then Some j else endpoint_loop eps (j + 1))"

fun interface_loop :: "usb_interface list \<Rightarrow> nat \<Rightarrow> (nat \<times> nat) option" where
  "interface_loop [] i = None"
| "interface_loop (x # xs) i =
     (case endpoint_loop (if_endpoints x) 0 of
        Some j \<Rightarrow> Some (i, j)
      | None \<Rightarrow> interface_loop xs (i + 1))"

definition findBulkEndpoint :: "usb_device \<Rightarrow> uvc_camera \<Rightarrow> usb_host
                                 \<Rightarrow> uvc_status \<times> uvc_camera \<times> usb_host" where
  "findBulkEndpoint dev s h =
     (case interface_loop dev 0 of
        Some ij \<Rightarrow>
          (case NewGlobalRef h of
             (r, h1) \<Rightarrow> (UOk, s\<lparr>u_bulkEndpoint := Some r, u_endpoint_at := Some ij\<rparr>, h1))
      | None \<Rightarrow> (UFail NoBulkEndpoint, s, h))"

definition uvc_open :: "bool \<Rightarrow> usb_device \<Rightarrow> uvc_camera \<Rightarrow> usb_host
                         \<Rightarrow> uvc_status \<times> uvc_camera \<times> usb_host" where
  "uvc_open class_found dev s h =
     (case NewGlobalRef h of
        (c, h1) \<Rightarrow>
          (case NewGlobalRef h1 of
             (d, h2) \<Rightarrow>
               (let s1 = s\<lparr>u_env := True, u_usbConnection := Some c, u_usbDevice := Some d\<rparr>
                in case findStreamingInterface class_found dev s1 h2 of
                     (UFail err, s2, h3) \<Rightarrow> (UFail err, s2, h3)
                   | (UOk, s2, h3) \<Rightarrow> findBulkEndpoint dev s2 h3)))"

subsection \<open>Format, streaming, release, close\<close>

text \<open>
  \<open>setFormat\<close>: stores the size, allocates \<open>width * height * 2\<close> bytes and returns
  what \<open>negotiateFormat\<close> returns, which is \<open>true\<close>. The product is an \<open>int\<close>:
  it wraps to 32 bits, and a negative length makes \<open>new[]\<close> throw
  (\<open>BadArrayLength\<close>).
\<close>

definition negotiateFormat :: "uvc_camera \<Rightarrow> bool" where
  "negotiateFormat s = True"

definition uvc_setFormat :: "int \<Rightarrow> int \<Rightarrow> uvc_camera \<Rightarrow> usb_host
                              \<Rightarrow> uvc_status \<times> uvc_camera \<times> usb_host" where
  "uvc_setFormat width height s h =
     (let s1 = s\<lparr>u_width := width, u_height := height,
                 u_frameBufferSize := sint (word_of_int (width * height * 2) :: 32 word)\<rparr>
      in if u_frameBufferSize s1 < 0
         then (UFail BadArrayLength, s1, h)
         else (let s2 = s1\<lparr>u_frameBuffer := Some (next_block h)\<rparr>;
                   h1 = h\<lparr>heap_blocks := next_block h # heap_blocks h,
                          next_block := next_block h + 1\<rparr>
               in (if negotiateFormat s2 then UOk else UFail NegotiationFailed, s2, h1)))"

definition uvc_startStreaming :: "uvc_camera \<Rightarrow> uvc_status \<times> uvc_camera" where
  "uvc_startStreaming s =
     (if u_bulkEndpoint s = None then (UFail NoEndpointAvailable, s)
      else (UOk, s\<lparr>u_streaming := True\<rparr>))"

definition uvc_stopStreaming :: "uvc_camera \<Rightarrow> uvc_camera" where
  "uvc_stopStreaming s = s\<lparr>u_streaming := False\<rparr>"

definition uvc_releaseFrame :: "uvc_camera \<Rightarrow> usb_host \<Rightarrow> uvc_camera \<times> usb_host" where
  "uvc_releaseFrame s h = (s, h)"

definition delete_ref :: "nat option \<Rightarrow> usb_host \<Rightarrow> usb_host" where
  "delete_ref r h = (case r of None \<Rightarrow> h | Some x \<Rightarrow> DeleteGlobalRef h x)"

definition uvc_close :: "uvc_camera \<Rightarrow> usb_host \<Rightarrow> uvc_camera \<times> usb_host" where
  "uvc_close s h =
     (let s1 = (if u_streaming s then uvc_stopStreaming s else s);
          (s2, h2) = (case u_frameBuffer s1 of
                        None \<Rightarrow> (s1, h)
                      | Some b \<Rightarrow> (s1\<lparr>u_frameBuffer := None, u_frameBufferSize := 0\<rparr>,
                                   h\<lparr>heap_blocks := removeAll b (heap_blocks h)\<rparr>));
          (s3, h3) = (if u_env s2
                      then (s2\<lparr>u_usbConnection := None, u_usbDevice := None,
                                u_bulkEndpoint := None\<rparr>,
                            delete_ref (u_bulkEndpoint s2)
                              (delete_ref (u_usbDevice s2) (delete_ref (u_usbConnection s2) h2)))
                      else (s2, h2))
      in (s3\<lparr>u_env := False\<rparr>, h3))"

text \<open>
  The two tests of the loops above, named: an interface of the video class with the
  streaming subclass, and a bulk endpoint with direction IN.
\<close>

definition is_streaming_interface :: "usb_interface \<Rightarrow> bool" where
  "is_streaming_interface x =
     (if_class x = UVC_INTERFACE_CLASS \<and> if_subclass x = UVC_INTERFACE_SUBCLASS_STREAMING)"

definition is_bulk_in :: "usb_endpoint \<Rightarrow> bool" where
  "is_bulk_in ep = (ep_type ep = 2 \<and> ep_direction ep = 128)"

section \<open>Native binding (uvc\_camera.cpp)\<close>

text \<open>
  The binding receives the camera as a pointer (\<open>None\<close> is the null pointer) and
  returns to the managed caller what the JNI type of the function allows.
\<close>

definition V4L2_PIX_FMT_YUYV :: int where
  "V4L2_PIX_FMT_YUYV = 0x56595559"

definition V4L2_PIX_FMT_MJPEG :: int where
  "V4L2_PIX_FMT_MJPEG = 0x47504A4D"

text \<open>\<open>nativeSetFormat\<close> returns a \<open>jboolean\<close>.\<close>

definition nativeSetFormat :: "(int \<times> int \<times> int) option \<Rightarrow> v4l2_camera option \<Rightarrow> int \<Rightarrow> int \<Rightarrow> int
                                \<Rightarrow> kernel \<Rightarrow> bool \<times> v4l2_camera option \<times> kernel" where
  "nativeSetFormat resp camera width height pixel_format k =
     (case camera of
        None \<Rightarrow> (False, None, k)
      | Some s \<Rightarrow>
          (case setFormat resp width height pixel_format s k of
             (r, s1, k1) \<Rightarrow> (r = Success, Some s1, k1)))"

text \<open>
  The managed heap: the byte arrays made by \<open>NewByteArray\<close>, by reference, and the
  next reference.
\<close>

record jvm =
  arrays :: "(nat \<times> 8 word list) list"
  next_array :: nat

text \<open>
  A read of \<open>n\<close> bytes at address \<open>a\<close> is inside a live mapping, and the bytes it
  sees in the process memory \<open>mem\<close>.
\<close>

definition readable :: "kernel \<Rightarrow> nat \<Rightarrow> nat \<Rightarrow> bool" where
  "readable k a n = list_ex (\<lambda>(a0, l). a0 \<le> a \<and> a + n \<le> a0 + l) (mappings k)"

definition read_bytes :: "(nat \<Rightarrow> 8 word) \<Rightarrow> nat \<Rightarrow> nat \<Rightarrow> 8 word list" where
  "read_bytes mem a n = map mem [a..<a + n]"

text \<open>
  \<open>nativeGetFrame\<close> returns a reference to a new array or null (\<open>None\<close>). The
  arguments are the driver's answer to the dequeue, whether \<open>NewByteArray\<close> can
  allocate, whether the re-queue hits a device fault, and the process memory.
  \<open>NewByteArray\<close> returns no array when it cannot allocate or when the length is
  negative; the process ends (\<open>Crashed\<close>) when the copy reads outside every mapping.
\<close>

datatype native_result = Returned "nat option" | Crashed

definition nativeGetFrame :: "dq_resp \<Rightarrow> bool \<Rightarrow> bool \<Rightarrow> (nat \<Rightarrow> 8 word) \<Rightarrow> v4l2_camera option
                               \<Rightarrow> kernel \<Rightarrow> jvm \<Rightarrow> native_result \<times> v4l2_camera option \<times> kernel \<times> jvm" where
  "nativeGetFrame resp alloc_ok fault mem camera k j =
     (case camera of
        None \<Rightarrow> (Returned None, None, k, j)
      | Some s \<Rightarrow>
          (case getFrame resp s k of
             (NoFrame err, s1, k1) \<Rightarrow> (Returned None, Some s1, k1, j)
           | (Crash, s1, k1) \<Rightarrow> (Crashed, Some s1, k1, j)
           | (Frame p n, s1, k1) \<Rightarrow>
               if \<not> (alloc_ok \<and> 0 \<le> n)
               then (case releaseFrame fault s1 k1 of
                       (s2, k2) \<Rightarrow> (Returned None, Some s2, k2, j))
               else (case p of
                       Addr a \<Rightarrow>
                         if readable k1 a (nat n)
                         then (let r = next_array j;
                                   j1 = j\<lparr>arrays := (r, read_bytes mem a (nat n)) # arrays j,
                                          next_array := r + 1\<rparr>
                               in case releaseFrame fault s1 k1 of
                                    (s2, k2) \<Rightarrow> (Returned (Some r), Some s2, k2, j1))
                         else (Crashed, Some s1, k1, j)
                     | _ \<Rightarrow> (Crashed, Some s1, k1, j))))"

section \<open>The caller's frame loop\<close>

text \<open>The number of buffers of the driver that are dequeued to the caller.\<close>

definition inflight_count :: "kernel \<Rightarrow> nat" where
  "inflight_count k = length (filter (\<lambda>x. x = InFlight) (slots k))"

text \<open>
  The driver's answers during one round of a caller that asks for a frame and, when it
  got one, releases it before asking again: the answer to the dequeue, and whether the
  re-queue hits a device fault.
\<close>

record frame_step =
  dq :: dq_resp
  release_fault :: bool

text \<open>
  The rounds of such a caller on the camera, as the list of the driver states after each
  call of \<open>getFrame\<close> and \<open>releaseFrame\<close>. A crash ends the run.
\<close>

fun frame_loop :: "frame_step list \<Rightarrow> v4l2_camera \<Rightarrow> kernel \<Rightarrow> kernel list" where
  "frame_loop [] s k = []"
| "frame_loop (st # rest) s k =
     (case getFrame (dq st) s k of
        (Frame p n, s1, k1) \<Rightarrow>
          (case releaseFrame (release_fault st) s1 k1 of
             (s2, k2) \<Rightarrow> k1 # k2 # frame_loop rest s2 k2)
      | (NoFrame err, s1, k1) \<Rightarrow> k1 # frame_loop rest s1 k1
      | (Crash, s1, k1) \<Rightarrow> [k1])"

text \<open>Every array of the managed heap has a reference below the next one to hand out.\<close>

definition jvm_ok :: "jvm \<Rightarrow> bool" where
  "jvm_ok j = list_all (\<lambda>(r, bytes). r < next_array j) (arrays j)"

section \<open>Sequences of calls on the kernel backend\<close>

text \<open>
  One call of a public method of \<open>V4L2Camera\<close>, with the answers that the operating
  system and the driver give during the call.
\<close>

datatype op =
    Open bool "32 word option"
  | OpenByFd int "32 word option"
  | Close bool
  | SetFormat "(int \<times> int \<times> int) option" int int int
  | StartStreaming start_env
  | StopStreaming bool
  | GetFrame dq_resp
  | ReleaseFrame bool

text \<open>
  The state after one call; \<open>None\<close> when the call ends the process, by a read
  through a bad pointer or by the exception of \<open>new[]\<close>.
\<close>

fun step :: "op \<Rightarrow> v4l2_camera \<times> kernel \<Rightarrow> (v4l2_camera \<times> kernel) option" where
  "step (Open ok cap) (s, k) = Some (snd (open ok cap s k))"
| "step (OpenByFd h cap) (s, k) = Some (snd (openByFd h cap s k))"
| "step (Close off_ok) (s, k) = Some (close off_ok s k)"
| "step (SetFormat resp w h pf) (s, k) = Some (snd (setFormat resp w h pf s k))"
| "step (StartStreaming e) (s, k) =
     (case startStreaming e s k of
        (Failure BadArrayNewLength, s1, k1) \<Rightarrow> None
      | (r, s1, k1) \<Rightarrow> Some (s1, k1))"
| "step (StopStreaming off_ok) (s, k) = Some (snd (stopStreaming off_ok s k))"
| "step (GetFrame resp) (s, k) =
     (case getFrame resp s k of
        (Crash, s1, k1) \<Rightarrow> None
      | (r, s1, k1) \<Rightarrow> Some (s1, k1))"
| "step (ReleaseFrame fault) (s, k) = Some (releaseFrame fault s k)"

fun run :: "op list \<Rightarrow> v4l2_camera \<times> kernel \<Rightarrow> (v4l2_camera \<times> kernel) option" where
  "run [] c = Some c"
| "run (x # xs) c = (case step x c of None \<Rightarrow> None | Some c1 \<Rightarrow> run xs c1)"


section \<open>Scenarios\<close>

text \<open>Concrete devices, drivers and runs, used to exercise the theorems below.\<close>

definition kernel0 :: kernel where
  "kernel0 = \<lparr>open_fds = [], mappings = [], next_addr = 4096, slots = [],
               k_streaming = False, k_format = (0, 0, 0), bad_munmaps = 0, bad_closes = 0\<rparr>"

definition caps_ok :: "32 word" where
  "caps_ok = 0x04000001"

definition grant :: "32 word \<Rightarrow> (nat \<Rightarrow> bool) \<Rightarrow> init_env" where
  "grant n ok = \<lparr>reqbufs_resp = Some n, querybuf_resp = (\<lambda>i. Some (614400, i * 614400)),
                 mmap_ok = ok, garbage_start = (\<lambda>i. Addr 7), garbage_buf = (\<lambda>i. zero_buffer)\<rparr>"

definition opened_cam :: v4l2_camera where
  "opened_cam = fst (snd (open True (Some caps_ok) new_camera kernel0))"

definition opened_kernel :: kernel where
  "opened_kernel = snd (snd (open True (Some caps_ok) new_camera kernel0))"

definition queue_fault_env :: start_env where
  "queue_fault_env = \<lparr>init = grant 4 (\<lambda>i. True), qbuf_fault = (\<lambda>i. i = 2), streamon_ok = True\<rparr>"

definition host0 :: usb_host where
  "host0 = \<lparr>global_refs = [], next_ref = 1, claimed = [], heap_blocks = [], next_block = 1,
             bad_deletes = 0\<rparr>"

definition bulk_in :: usb_endpoint where
  "bulk_in = \<lparr>ep_type = 2, ep_direction = 128\<rparr>"

definition interrupt_in :: usb_endpoint where
  "interrupt_in = \<lparr>ep_type = 3, ep_direction = 128\<rparr>"

definition webcam :: usb_device where
  "webcam = [\<lparr>if_class = 0x0E, if_subclass = 0x01, if_endpoints = [interrupt_in],
              if_claimable = True\<rparr>,
             \<lparr>if_class = 0x0E, if_subclass = 0x02, if_endpoints = [bulk_in],
              if_claimable = True\<rparr>]"

definition uvc_streaming_run :: "uvc_camera \<times> usb_host" where
  "uvc_streaming_run =
     (case uvc_open True webcam new_uvc_camera host0 of
        (r1, s1, h1) \<Rightarrow>
          (case uvc_setFormat 640 480 s1 h1 of
             (r2, s2, h2) \<Rightarrow> (snd (uvc_startStreaming s2), h2)))"


text \<open>
  A device whose control interface carries a bulk IN endpoint and whose streaming
  interface has no endpoint; and a device with two streaming interfaces, the first of
  which refuses the claim.
\<close>

definition odd_cam :: usb_device where
  "odd_cam = [\<lparr>if_class = 0x0E, if_subclass = 0x01, if_endpoints = [bulk_in],
               if_claimable = True\<rparr>,
              \<lparr>if_class = 0x0E, if_subclass = 0x02, if_endpoints = [],
               if_claimable = True\<rparr>]"

definition busy_cam :: usb_device where
  "busy_cam = [\<lparr>if_class = 0x0E, if_subclass = 0x02, if_endpoints = [interrupt_in, bulk_in],
                if_claimable = False\<rparr>,
               \<lparr>if_class = 0x0E, if_subclass = 0x02, if_endpoints = [interrupt_in, bulk_in],
                if_claimable = True\<rparr>]"

text \<open>The camera of the reference scenario: opened, format set, streaming with four buffers.\<close>

definition good_env :: start_env where
  "good_env = \<lparr>init = grant 4 (\<lambda>i. True), qbuf_fault = (\<lambda>i. False), streamon_ok = True\<rparr>"

definition formatted_kernel :: kernel where
  "formatted_kernel =
     snd (snd (setFormat (Some (640, 480, V4L2_PIX_FMT_YUYV)) 640 480 V4L2_PIX_FMT_YUYV
                 opened_cam opened_kernel))"

definition streaming_cam :: v4l2_camera where
  "streaming_cam = fst (snd (startStreaming good_env opened_cam formatted_kernel))"

definition streaming_kernel :: kernel where
  "streaming_kernel = snd (snd (startStreaming good_env opened_cam formatted_kernel))"


text \<open>Three rounds of the frame loop: a frame, nothing ready, a frame.\<close>

definition three_rounds :: "frame_step list" where
  "three_rounds = [\<lparr>dq = DqReady 0 614400, release_fault = False\<rparr>,
                   \<lparr>dq = DqAgain, release_fault = False\<rparr>,
                   \<lparr>dq = DqReady 1 614400, release_fault = False\<rparr>]"


text \<open>An empty managed heap, and a process memory whose byte at each address is the address.\<close>

definition jvm0 :: jvm where
  "jvm0 = \<lparr>arrays = [], next_array = 0\<rparr>"

definition ramp :: "nat \<Rightarrow> 8 word" where
  "ramp a = of_nat a"


text \<open>
  Streaming is started, stopped and started again before the camera is closed; and a
  descriptor is passed to \<open>openByFd\<close> on a device without the streaming capability.
\<close>

definition yuyv_640 :: op where
  "yuyv_640 = SetFormat (Some (640, 480, V4L2_PIX_FMT_YUYV)) 640 480 V4L2_PIX_FMT_YUYV"

definition restart_ops :: "op list" where
  "restart_ops = [Open True (Some caps_ok), yuyv_640, StartStreaming good_env, StopStreaming True,
                  yuyv_640, StartStreaming good_env, Close True]"



text \<open>
  The streaming camera after \<open>stopStreaming\<close>, where the pool is still mapped; a
  driver that grants one buffer; one that grants four and refuses to map the third; one
  that grants four and fails to describe the second; and one that reports a count with
  the top bit set.
\<close>

definition stopped_cam :: v4l2_camera where
  "stopped_cam = fst (snd (stopStreaming True streaming_cam streaming_kernel))"

definition stopped_kernel :: kernel where
  "stopped_kernel = snd (snd (stopStreaming True streaming_cam streaming_kernel))"

definition always :: "nat \<Rightarrow> bool" where
  "always i = True"

definition all_but_third :: "nat \<Rightarrow> bool" where
  "all_but_third i = (i \<noteq> 2)"

definition one_buffer_env :: init_env where
  "one_buffer_env = grant 1 always"

definition map_fault_env :: init_env where
  "map_fault_env = grant 4 all_but_third"

definition query_fault_env :: init_env where
  "query_fault_env =
     (grant 4 always)\<lparr>querybuf_resp := (\<lambda>i. if i = 1 then None else Some (614400, i * 614400))\<rparr>"

definition huge_count_env :: init_env where
  "huge_count_env = grant 0x80000000 always"

text \<open>Two rounds of the frame loop in which the first re-queue hits a device fault.\<close>

definition faulty_rounds :: "frame_step list" where
  "faulty_rounds = [\<lparr>dq = DqReady 0 614400, release_fault = True\<rparr>,
                    \<lparr>dq = DqReady 1 614400, release_fault = False\<rparr>]"

section \<open>The scenarios evaluated\<close>

lemma opened_eval:
  "opened_cam = new_camera\<lparr>fd := 0\<rparr>" "opened_kernel = kernel0\<lparr>open_fds := [0]\<rparr>"
  by (simp_all add: opened_cam_def opened_kernel_def open_def k_open_def queryCapabilities_def
      fd_ok_def caps_ok_def V4L2_CAP_VIDEO_CAPTURE_def V4L2_CAP_STREAMING_def kernel0_def new_camera_def)

lemmas start_eval = startStreaming_def initBuffers_def k_reqbufs_def k_querybuf_def
  k_mmap_def k_qbuf_def k_streamon_def fd_ok_def grant_def kernel0_def new_camera_def
  upt_conv_Cons zero_buffer_def V4L2_BUF_TYPE_VIDEO_CAPTURE_def V4L2_MEMORY_MMAP_def

lemma replicate_4: "replicate 4 x = [x, x, x, x]"
  by (simp add: numeral_eq_Suc)

lemma formatted_eval:
  "formatted_kernel = kernel0\<lparr>open_fds := [0], k_format := (640, 480, V4L2_PIX_FMT_YUYV)\<rparr>"
  by (simp add: formatted_kernel_def setFormat_def k_s_fmt_def fd_ok_def opened_eval kernel0_def
      new_camera_def)

lemma streaming_eval:
  "startStreaming good_env opened_cam formatted_kernel = (Success, streaming_cam, streaming_kernel)"
  "fd streaming_cam = 0" "streaming streaming_cam"
  "buffer_start streaming_cam = Some [Addr 4096, Addr 618497, Addr 1232898, Addr 1847299]"
  "buffer_count streaming_cam = 4"
  "open_fds streaming_kernel = [0]"
  "mappings streaming_kernel = [(4096, 614400), (618497, 614400), (1232898, 614400), (1847299, 614400)]"
  "slots streaming_kernel = [Queued, Queued, Queued, Queued]"
  "k_streaming streaming_kernel"
  by (simp_all add: streaming_cam_def streaming_kernel_def formatted_eval opened_eval good_env_def
      start_eval replicate_4)


lemma stopped_eval:
  "stopped_cam = streaming_cam\<lparr>streaming := False\<rparr>"
  "stopped_kernel = streaming_kernel\<lparr>k_streaming := False\<rparr>"
  by (simp_all add: stopped_cam_def stopped_kernel_def stopStreaming_def k_streamoff_def
      fd_ok_def streaming_eval)

section \<open>Verification: the buffer pool\<close>

lemma mappings_k_munmap:
  "mappings (k_munmap k a len) = filter (\<lambda>m. fst m \<noteq> a) (mappings k)"
proof (cases "a \<in> fst ` set (mappings k)")
  case True then show ?thesis by (simp add: k_munmap_def)
next
  case False
  then have "filter (\<lambda>m. fst m \<noteq> a) (mappings k) = mappings k"
    by (intro filter_True) force
  with False show ?thesis by (simp add: k_munmap_def)
qed

lemma mappings_munmap_loop:
  "mappings (munmap_loop k xs) = filter (\<lambda>m. Addr (fst m) \<notin> fst ` set xs) (mappings k)"
proof (induction xs arbitrary: k)
  case Nil then show ?case by simp
next
  case (Cons x xs)
  obtain p b where x: "x = (p, b)" by (cases x)
  show ?case
  proof (cases p)
    case (Addr a)
    then show ?thesis using Cons.IH [of "k_munmap k a (b_length b)"] x
      by (auto simp: mappings_k_munmap intro!: filter_cong)
  next
    case Null then show ?thesis using Cons.IH [of k] x by (auto intro!: filter_cong)
  next
    case MapFailed then show ?thesis using Cons.IH [of k] x by (auto intro!: filter_cong)
  qed
qed

lemma map_loop_inv:
  assumes "map_loop e h is ps bs k = (r, ps', bs', k')"
    and "distinct is" and "\<forall>i\<in>set is. i < length ps"
  shows "length ps' = length ps \<and> length bs' = length bs
       \<and> (\<forall>j. j \<notin> set is \<longrightarrow> ps' ! j = ps ! j)
       \<and> (\<forall>m\<in>set (mappings k'). m \<in> set (mappings k) \<or> (\<exists>i\<in>set is. ps' ! i = Addr (fst m)))"
  using assms
proof (induction "is" arbitrary: ps bs k)
  case Nil then show ?case by simp
next
  case (Cons i "is")
  show ?case
  proof (cases "k_querybuf k h i (querybuf_resp e i)")
    case None
    with Cons.prems(1) show ?thesis by simp
  next
    case (Some lo)
    obtain len off where lo: "lo = (len, off)" by (cases lo)
    obtain p k1 where mm: "k_mmap k h len (mmap_ok e i) = (p, k1)" by (cases "k_mmap k h len (mmap_ok e i)")
    show ?thesis
    proof (cases "p = MapFailed")
      case True
      then have "k1 = k" using mm by (auto simp: k_mmap_def split: if_splits)
      with True Cons.prems(1) Some lo mm show ?thesis by auto
    next
      case False
      let ?buf = "zero_buffer\<lparr>b_type := V4L2_BUF_TYPE_VIDEO_CAPTURE,
                                  b_memory := V4L2_MEMORY_MMAP, b_index := i,
                                  b_length := len, b_offset := off\<rparr>"
      from False Cons.prems(1) Some lo mm
      have rec: "map_loop e h is (ps[i := p]) (bs[i := ?buf]) k1 = (r, ps', bs', k')"
        by simp
      have d: "distinct is" "i \<notin> set is" "i < length ps" "\<forall>j\<in>set is. j < length (ps[i := p])"
        using Cons.prems(2,3) by auto
      from Cons.IH [OF rec d(1) d(4)]
      have ih: "length ps' = length ps" "length bs' = length bs"
        "\<forall>j. j \<notin> set is \<longrightarrow> ps' ! j = ps[i := p] ! j"
        "\<forall>m\<in>set (mappings k'). m \<in> set (mappings k1) \<or> (\<exists>i\<in>set is. ps' ! i = Addr (fst m))"
        by auto
      from mm False have k1: "p = Addr (next_addr k)" "mappings k1 = mappings k @ [(next_addr k, len)]"
        by (auto simp: k_mmap_def split: if_splits)
      have pi: "ps' ! i = p" using ih(3) d(2,3) by simp
      show ?thesis using ih(1,2,3,4) k1 pi d(2) by auto
    qed
  qed
qed

lemma fd_ok_k_mmap: "fd_ok (snd (k_mmap k h len ok)) h' = fd_ok k h'"
  by (simp add: k_mmap_def fd_ok_def)

lemma map_loop_first_failure:
  assumes "fd_ok k h" and "\<forall>j\<in>set pre. querybuf_resp e j \<noteq> None \<and> mmap_ok e j"
  shows "(querybuf_resp e i = None
            \<longrightarrow> fst (map_loop e h (pre @ i # post) ps bs k) = Some QueryBufFailed)
       \<and> (querybuf_resp e i \<noteq> None \<and> \<not> mmap_ok e i
            \<longrightarrow> fst (map_loop e h (pre @ i # post) ps bs k) = Some MappingFailed)"
  using assms
proof (induction pre arbitrary: ps bs k)
  case Nil
  then show ?case
    by (auto simp: k_querybuf_def k_mmap_def Let_def split: option.splits prod.splits)
next
  case (Cons j pre)
  from Cons.prems(2) obtain len off where q: "querybuf_resp e j = Some (len, off)" by auto
  from Cons.prems(2) have m: "mmap_ok e j" by simp
  obtain p k1 where mm: "k_mmap k h len True = (p, k1)" by (cases "k_mmap k h len True")
  with Cons.prems(1) have p: "p \<noteq> MapFailed" by (auto simp: k_mmap_def)
  have ok1: "fd_ok k1 h" using fd_ok_k_mmap [of k h len True h] mm Cons.prems(1) by simp
  from Cons.prems(2) have al: "\<forall>j\<in>set pre. querybuf_resp e j \<noteq> None \<and> mmap_ok e j" by simp
  let ?buf = "zero_buffer\<lparr>b_type := V4L2_BUF_TYPE_VIDEO_CAPTURE,
                            b_memory := V4L2_MEMORY_MMAP, b_index := j,
                            b_length := len, b_offset := off\<rparr>"
  have step: "map_loop e h ((j # pre) @ i # post) ps bs k
                = map_loop e h (pre @ i # post) (ps[j := p]) (bs[j := ?buf]) k1"
    using q m mm p Cons.prems(1) by (simp add: k_querybuf_def)
  show ?case unfolding step using Cons.IH [OF ok1 al] by blast
qed

lemma upt_split: "i < n \<Longrightarrow> [0..<n] = [0..<i] @ i # [Suc i..<n]"
  using upt_add_eq_append [of 0 i "n - i"] upt_conv_Cons [of i n] by simp

lemma freeBuffers_fields:
  "buffer_start (fst (freeBuffers s k)) = None \<and> buffers (fst (freeBuffers s k)) = None
   \<and> buffer_count (fst (freeBuffers s k)) = 0"
  by (simp add: freeBuffers_def Let_def)

lemma initBuffers_insufficient:
  assumes "fd_ok k (fd s)" and "reqbufs_resp e = Some c" and "c < 2"
  shows "initBuffers e s k
           = (Failure InsufficientBuffers, s, k\<lparr>slots := replicate (unat c) Queued\<rparr>)"
  using assms by (simp add: initBuffers_def k_reqbufs_def)

lemma initBuffers_throws:
  assumes "fd_ok k (fd s)" and "reqbufs_resp e = Some c" and "sint c < 0"
  shows "initBuffers e s k
           = (Failure BadArrayNewLength, s\<lparr>buffer_count := sint c\<rparr>,
              k\<lparr>slots := replicate (unat c) Queued\<rparr>)"
proof -
  have "\<not> c < 2"
  proof
    assume "c < 2"
    then have "c = 0 \<or> c = 1" by unat_arith
    with assms(3) show False by auto
  qed
  with assms show ?thesis by (simp add: initBuffers_def k_reqbufs_def)
qed

lemma initBuffers_first_failure:
  assumes "fd_ok k (fd s)" and "reqbufs_resp e = Some c" and "\<not> c < 2" and "0 \<le> sint c"
    and "i < nat (sint c)" and "\<forall>j<i. querybuf_resp e j \<noteq> None \<and> mmap_ok e j"
  shows "querybuf_resp e i = None \<longrightarrow> fst (initBuffers e s k) = Failure QueryBufFailed"
    and "querybuf_resp e i \<noteq> None \<and> \<not> mmap_ok e i
           \<longrightarrow> fst (initBuffers e s k) = Failure MappingFailed"
proof -
  let ?n = "nat (sint c)"
  let ?k1 = "k\<lparr>slots := replicate (unat c) Queued\<rparr>"
  let ?ml = "map_loop e (fd s) [0..<?n] (map (garbage_start e) [0..<?n])
               (map (garbage_buf e) [0..<?n]) ?k1"
  have ok: "fd_ok ?k1 (fd s)" using assms(1) by (simp add: fd_ok_def)
  have pre: "\<forall>j\<in>set [0..<i]. querybuf_resp e j \<noteq> None \<and> mmap_ok e j" using assms(6) by simp
  note ff = map_loop_first_failure [OF ok pre, of i "[Suc i..<?n]", folded upt_split [OF assms(5)]]
  have init: "fst (initBuffers e s k)
                = (case fst ?ml of None \<Rightarrow> Success | Some err \<Rightarrow> Failure err)"
    using assms(1-4)
    by (simp add: initBuffers_def k_reqbufs_def Let_def split: prod.splits option.splits)
  show "querybuf_resp e i = None \<longrightarrow> fst (initBuffers e s k) = Failure QueryBufFailed"
    using ff init by auto
  show "querybuf_resp e i \<noteq> None \<and> \<not> mmap_ok e i
           \<longrightarrow> fst (initBuffers e s k) = Failure MappingFailed"
    using ff init by auto
qed

lemma map_loop_err:
  "fst (map_loop e h is ps bs k) \<in> {None, Some QueryBufFailed, Some MappingFailed}"
  by (induction "is" arbitrary: ps bs k)
     (auto simp: Let_def split: option.splits prod.splits)

lemma initBuffers_failure_cases:
  assumes "initBuffers e s k = (Failure err, s', k')"
  shows "(err = ReqBufsFailed \<or> err = InsufficientBuffers) \<and> s' = s \<and> mappings k' = mappings k
       \<or> err = BadArrayNewLength \<and> buffers s' = buffers s \<and> buffer_start s' = buffer_start s
           \<and> mappings k' = mappings k
       \<or> (err = QueryBufFailed \<or> err = MappingFailed) \<and> buffer_start s' = None
           \<and> buffers s' = None \<and> buffer_count s' = 0
           \<and> set (mappings k') \<subseteq> set (mappings k)"
proof (cases "k_reqbufs k (fd s) (reqbufs_resp e)")
  case None
  with assms show ?thesis by (simp add: initBuffers_def)
next
  case (Some nk)
  obtain c k1 where nk: "nk = (c, k1)" by (cases nk)
  from Some nk have k1: "mappings k1 = mappings k"
    by (auto simp: k_reqbufs_def split: if_splits option.splits)
  show ?thesis
  proof (cases "c < 2")
    case True
    with assms Some nk k1 show ?thesis by (simp add: initBuffers_def)
  next
    case False
    note big = False
    show ?thesis
    proof (cases "sint c < 0")
      case True
      with assms Some nk k1 big show ?thesis by (auto simp: initBuffers_def)
    next
      case False
      define n where "n = nat (sint c)"
      obtain r ps bs k2 where ml: "map_loop e (fd s) [0..<n] (map (garbage_start e) [0..<n])
                       (map (garbage_buf e) [0..<n]) k1 = (r, ps, bs, k2)"
        by (metis prod_cases4)
      from map_loop_inv [OF ml] have inv: "length ps = n" "length bs = n"
        "\<forall>m\<in>set (mappings k2). m \<in> set (mappings k1) \<or> (\<exists>i\<in>set [0..<n]. ps ! i = Addr (fst m))"
        by auto
      let ?s1 = "s\<lparr>buffer_count := sint c, buffers := Some bs, buffer_start := Some ps\<rparr>"
      have nn: "nat (buffer_count ?s1) = n" by (simp add: n_def)
      from assms Some nk big False ml obtain e' where r: "r = Some e'"
        by (cases r) (auto simp: initBuffers_def n_def Let_def)
      with assms Some nk big False ml have fb: "freeBuffers ?s1 k2 = (s', k')" and e': "e' = err"
        by (auto simp: initBuffers_def n_def Let_def split: prod.splits)
      from map_loop_err [of e "fd s" "[0..<n]" "map (garbage_start e) [0..<n]"
          "map (garbage_buf e) [0..<n]" k1] ml r e'
      have err: "err = QueryBufFailed \<or> err = MappingFailed" by auto
      have z: "take n (zip ps bs) = zip ps bs" using inv(1,2) by simp
      have fstz: "fst ` set (zip ps bs) = set ps" using inv(1,2)
        by (metis map_fst_zip set_map)
      from fb have k': "mappings k' = filter (\<lambda>m. Addr (fst m) \<notin> set ps) (mappings k2)"
        using nn by (auto simp: freeBuffers_def Let_def z mappings_munmap_loop fstz)
      have "set (mappings k') \<subseteq> set (mappings k)"
      proof
        fix m assume "m \<in> set (mappings k')"
        with k' have m2: "m \<in> set (mappings k2)" and na: "Addr (fst m) \<notin> set ps" by auto
        from inv(3) m2 have "m \<in> set (mappings k1) \<or> (\<exists>i<n. ps ! i = Addr (fst m))" by auto
        with na inv(1) show "m \<in> set (mappings k)" using k1 by (auto simp: in_set_conv_nth)
      qed
      moreover from fb have "buffer_start s' = None \<and> buffers s' = None \<and> buffer_count s' = 0"
        using freeBuffers_fields [of ?s1 k2] by simp
      ultimately show ?thesis using err by simp
    qed
  qed
qed

text \<open>
  Claim C2 says that whenever the driver grants fewer than two buffers, zero mappings
  remain. After \<open>stopStreaming\<close> the pool of the last run is still mapped; when the
  next request is granted a single buffer, \<open>initBuffers\<close> fails with
  \<open>InsufficientBuffers\<close> before it touches anything, and the four mappings of that pool
  remain.
\<close>

theorem initBuffers_keeps_pool_counterexample:
  "fst (initBuffers one_buffer_env stopped_cam stopped_kernel) = Failure InsufficientBuffers
   \<and> mappings (snd (snd (initBuffers one_buffer_env stopped_cam stopped_kernel)))
       = [(4096, 614400), (618497, 614400), (1232898, 614400), (1847299, 614400)]"
  by (simp add: one_buffer_env_def grant_def initBuffers_def k_reqbufs_def fd_ok_def
      stopped_eval streaming_eval)

text \<open>
  Claim C2, amended. Every run of \<open>initBuffers\<close> on an open descriptor whose request
  the driver answers with a count: if the count is below two the call fails with
  \<open>InsufficientBuffers\<close> and changes neither the object nor the mappings; if the
  count read as \<open>int\<close> is negative, \<open>new[]\<close> throws and the mappings are unchanged;
  otherwise the first buffer that cannot be described or mapped decides the failure,
  \<open>QueryBufFailed\<close> or \<open>MappingFailed\<close>. Whenever the call fails with one of these
  two, both arrays are released (\<open>buffer_start_\<close>, and \<open>buffers_\<close>, the record of the
  request), the count is zero, and every mapping that is still live existed before the
  call. So every failing run that starts with no mapping ends with zero mappings. This holds whatever the uninitialised slots of the fresh
  arrays contain.
\<close>

theorem initBuffers_failure:
  assumes "initBuffers e s k = (r, s', k')" and "fd_ok k (fd s)" and "reqbufs_resp e = Some c"
  shows "(c < 2 \<longrightarrow> r = Failure InsufficientBuffers \<and> s' = s \<and> mappings k' = mappings k)
       \<and> (sint c < 0 \<longrightarrow> r = Failure BadArrayNewLength \<and> mappings k' = mappings k)
       \<and> (\<not> c < 2 \<and> 0 \<le> sint c
            \<and> (\<exists>i<nat (sint c). querybuf_resp e i \<noteq> None \<and> \<not> mmap_ok e i
                   \<and> (\<forall>j<i. querybuf_resp e j \<noteq> None \<and> mmap_ok e j))
            \<longrightarrow> r = Failure MappingFailed)
       \<and> (\<not> c < 2 \<and> 0 \<le> sint c
            \<and> (\<exists>i<nat (sint c). querybuf_resp e i = None
                   \<and> (\<forall>j<i. querybuf_resp e j \<noteq> None \<and> mmap_ok e j))
            \<longrightarrow> r = Failure QueryBufFailed)
       \<and> (r = Failure MappingFailed \<or> r = Failure QueryBufFailed
            \<longrightarrow> buffer_start s' = None \<and> buffers s' = None \<and> buffer_count s' = 0
                \<and> set (mappings k') \<subseteq> set (mappings k))
       \<and> (r \<noteq> Success \<and> mappings k = [] \<longrightarrow> mappings k' = [])"
proof -
  have c1: "c < 2 \<longrightarrow> r = Failure InsufficientBuffers \<and> s' = s \<and> mappings k' = mappings k"
  proof
    assume "c < 2"
    from initBuffers_insufficient [OF assms(2,3) this] assms(1)
    show "r = Failure InsufficientBuffers \<and> s' = s \<and> mappings k' = mappings k" by auto
  qed
  have c2: "sint c < 0 \<longrightarrow> r = Failure BadArrayNewLength \<and> mappings k' = mappings k"
  proof
    assume "sint c < 0"
    from initBuffers_throws [OF assms(2,3) this] assms(1)
    show "r = Failure BadArrayNewLength \<and> mappings k' = mappings k" by auto
  qed
  have c3: "\<not> c < 2 \<and> 0 \<le> sint c
            \<and> (\<exists>i<nat (sint c). querybuf_resp e i \<noteq> None \<and> \<not> mmap_ok e i
                   \<and> (\<forall>j<i. querybuf_resp e j \<noteq> None \<and> mmap_ok e j))
            \<longrightarrow> r = Failure MappingFailed"
  proof
    assume "\<not> c < 2 \<and> 0 \<le> sint c
            \<and> (\<exists>i<nat (sint c). querybuf_resp e i \<noteq> None \<and> \<not> mmap_ok e i
                   \<and> (\<forall>j<i. querybuf_resp e j \<noteq> None \<and> mmap_ok e j))"
    then obtain i where a: "\<not> c < 2" "0 \<le> sint c" "i < nat (sint c)"
      "\<forall>j<i. querybuf_resp e j \<noteq> None \<and> mmap_ok e j"
      and b: "querybuf_resp e i \<noteq> None \<and> \<not> mmap_ok e i" by blast
    from initBuffers_first_failure(2) [OF assms(2,3) a] b assms(1)
    show "r = Failure MappingFailed" by simp
  qed
  have c4: "\<not> c < 2 \<and> 0 \<le> sint c
            \<and> (\<exists>i<nat (sint c). querybuf_resp e i = None
                   \<and> (\<forall>j<i. querybuf_resp e j \<noteq> None \<and> mmap_ok e j))
            \<longrightarrow> r = Failure QueryBufFailed"
  proof
    assume "\<not> c < 2 \<and> 0 \<le> sint c
            \<and> (\<exists>i<nat (sint c). querybuf_resp e i = None
                   \<and> (\<forall>j<i. querybuf_resp e j \<noteq> None \<and> mmap_ok e j))"
    then obtain i where a: "\<not> c < 2" "0 \<le> sint c" "i < nat (sint c)"
      "\<forall>j<i. querybuf_resp e j \<noteq> None \<and> mmap_ok e j"
      and b: "querybuf_resp e i = None" by blast
    from initBuffers_first_failure(1) [OF assms(2,3) a] b assms(1)
    show "r = Failure QueryBufFailed" by simp
  qed
  have c5: "r = Failure MappingFailed \<or> r = Failure QueryBufFailed
            \<longrightarrow> buffer_start s' = None \<and> buffers s' = None \<and> buffer_count s' = 0
                \<and> set (mappings k') \<subseteq> set (mappings k)"
  proof
    assume "r = Failure MappingFailed \<or> r = Failure QueryBufFailed"
    then obtain err where e: "r = Failure err" "err = MappingFailed \<or> err = QueryBufFailed"
      by auto
    from initBuffers_failure_cases [OF assms(1) [unfolded e(1)]] e(2)
    show "buffer_start s' = None \<and> buffers s' = None \<and> buffer_count s' = 0
            \<and> set (mappings k') \<subseteq> set (mappings k)" by auto
  qed
  have c6: "r \<noteq> Success \<and> mappings k = [] \<longrightarrow> mappings k' = []"
  proof
    assume a: "r \<noteq> Success \<and> mappings k = []"
    then obtain err where e: "r = Failure err" by (cases r) auto
    from initBuffers_failure_cases [OF assms(1) [unfolded e]] a
    show "mappings k' = []" by auto
  qed
  from c1 c2 c3 c4 c5 c6 show ?thesis by blast
qed

text \<open>
  The failures of the theorem above on concrete drivers, from the opened camera with no
  mapping: one buffer granted; four granted and the third not mapped; four granted and
  the second not described; a count with the top bit set.
\<close>

theorem initBuffers_failure_witness:
  "fd_ok opened_kernel (fd opened_cam) \<and> mappings opened_kernel = []
   \<and> fst (initBuffers one_buffer_env opened_cam opened_kernel) = Failure InsufficientBuffers
   \<and> mappings (snd (snd (initBuffers one_buffer_env opened_cam opened_kernel))) = []
   \<and> fst (initBuffers map_fault_env opened_cam opened_kernel) = Failure MappingFailed
   \<and> buffer_start (fst (snd (initBuffers map_fault_env opened_cam opened_kernel))) = None
   \<and> mappings (snd (snd (initBuffers map_fault_env opened_cam opened_kernel))) = []
   \<and> fst (initBuffers query_fault_env opened_cam opened_kernel) = Failure QueryBufFailed
   \<and> mappings (snd (snd (initBuffers query_fault_env opened_cam opened_kernel))) = []
   \<and> fst (initBuffers huge_count_env opened_cam opened_kernel) = Failure BadArrayNewLength"
proof -
  have ok: "fd_ok opened_kernel (fd opened_cam)" and em: "mappings opened_kernel = []"
    by (simp_all add: opened_eval fd_ok_def kernel0_def new_camera_def)
  have run: "\<And>e. initBuffers e opened_cam opened_kernel
               = (fst (initBuffers e opened_cam opened_kernel),
                  fst (snd (initBuffers e opened_cam opened_kernel)),
                  snd (snd (initBuffers e opened_cam opened_kernel)))" by simp
  have r1: "reqbufs_resp one_buffer_env = Some 1" by (simp add: one_buffer_env_def grant_def)
  have r4: "reqbufs_resp map_fault_env = Some 4" "reqbufs_resp query_fault_env = Some 4"
    by (simp_all add: map_fault_env_def query_fault_env_def grant_def)
  have rh: "reqbufs_resp huge_count_env = Some 0x80000000"
    by (simp add: huge_count_env_def grant_def)
  have w4: "\<not> (4 :: 32 word) < 2" "0 \<le> sint (4 :: 32 word)" "(1 :: 32 word) < 2"
    "sint (0x80000000 :: 32 word) < 0" by simp_all
  have mf: "\<exists>i<nat (sint (4 :: 32 word)). querybuf_resp map_fault_env i \<noteq> None
              \<and> \<not> mmap_ok map_fault_env i
              \<and> (\<forall>j<i. querybuf_resp map_fault_env j \<noteq> None \<and> mmap_ok map_fault_env j)"
    by (rule exI [of _ 2])
       (auto simp: map_fault_env_def grant_def all_but_third_def)
  have qf: "\<exists>i<nat (sint (4 :: 32 word)). querybuf_resp query_fault_env i = None
              \<and> (\<forall>j<i. querybuf_resp query_fault_env j \<noteq> None \<and> mmap_ok query_fault_env j)"
    by (rule exI [of _ 1])
       (auto simp: query_fault_env_def grant_def always_def)
  note t1 = initBuffers_failure [OF run [of one_buffer_env] ok r1]
  note t2 = initBuffers_failure [OF run [of map_fault_env] ok r4(1)]
  note t3 = initBuffers_failure [OF run [of query_fault_env] ok r4(2)]
  note t4 = initBuffers_failure [OF run [of huge_count_env] ok rh]
  from t1 w4(3) em
  have a: "fst (initBuffers one_buffer_env opened_cam opened_kernel) = Failure InsufficientBuffers"
    "mappings (snd (snd (initBuffers one_buffer_env opened_cam opened_kernel))) = []" by auto
  from t2 w4(1,2) mf
  have b0: "fst (initBuffers map_fault_env opened_cam opened_kernel) = Failure MappingFailed"
    by blast
  with t2 em
  have b: "buffer_start (fst (snd (initBuffers map_fault_env opened_cam opened_kernel))) = None"
    "mappings (snd (snd (initBuffers map_fault_env opened_cam opened_kernel))) = []" by auto
  from t3 w4(1,2) qf
  have c0: "fst (initBuffers query_fault_env opened_cam opened_kernel) = Failure QueryBufFailed"
    by blast
  with t3 em
  have c: "mappings (snd (snd (initBuffers query_fault_env opened_cam opened_kernel))) = []"
    by auto
  from t4 w4(4)
  have d: "fst (initBuffers huge_count_env opened_cam opened_kernel) = Failure BadArrayNewLength"
    by blast
  from ok em a b0 b c0 c d show ?thesis by blast
qed

section \<open>Verification: startStreaming\<close>

text \<open>
  Claim C1 says that a \<open>startStreaming\<close> that fails after the pool has been built
  leaves no live mapping and a state equal to the one before the call. The code returns
  at the failed \<open>VIDIOC_QBUF\<close> (and at a failed \<open>VIDIOC_STREAMON\<close>) without calling
  \<open>freeBuffers\<close>, which \<open>initBuffers\<close> calls at each of its failures once the
  arrays exist. Here the
  driver grants and maps four buffers and refuses to queue the third: the call fails,
  the four mappings stay live and the object keeps the pool, while before the call there
  was no mapping and no pool.
\<close>

theorem startStreaming_queue_failure_keeps_pool:
  "(case startStreaming queue_fault_env opened_cam opened_kernel of
      (r, s', k') \<Rightarrow> r = Failure QueueFailed \<and> length (mappings k') = 4 \<and> buffer_count s' = 4
         \<and> buffer_start s' \<noteq> None \<and> \<not> streaming s')
   \<and> mappings opened_kernel = [] \<and> buffer_count opened_cam = 0"
  by (simp add: opened_eval startStreaming_def initBuffers_def k_reqbufs_def k_querybuf_def
      k_mmap_def k_qbuf_def fd_ok_def queue_fault_env_def grant_def kernel0_def new_camera_def
      upt_conv_Cons zero_buffer_def V4L2_BUF_TYPE_VIDEO_CAPTURE_def V4L2_MEMORY_MMAP_def)

section \<open>Verification: setFormat\<close>

lemma sint_int_in_range:
  "0 \<le> x \<Longrightarrow> x < 2 ^ 31 \<Longrightarrow> sint (word_of_int x :: 32 word) = x"
  by (simp add: signed_of_int signed_take_bit_int_eq_self)

lemmas uvc_defs = uvc_streaming_run_def uvc_open_def uvc_setFormat_def uvc_startStreaming_def
  findStreamingInterface_def findBulkEndpoint_def NewGlobalRef_def webcam_def host0_def
  new_uvc_camera_def bulk_in_def interrupt_in_def UVC_INTERFACE_CLASS_def
  UVC_INTERFACE_SUBCLASS_STREAMING_def negotiateFormat_def Let_def

lemma uvc_streaming_run_eval:
  "uvc_streaming_run =
     (\<lparr>u_env = True, u_usbConnection = Some 1, u_usbDevice = Some 2, u_bulkEndpoint = Some 3,
       u_endpoint_at = Some (1, 0), u_width = 640, u_height = 480, u_streaming = True,
       u_frameBuffer = Some 1, u_frameBufferSize = 614400\<rparr>,
      \<lparr>global_refs = [3, 2, 1], next_ref = 4, claimed = [1], heap_blocks = [1], next_block = 2,
       bad_deletes = 0\<rparr>)"
  by (simp add: uvc_defs)

text \<open>
  Claim C3 says that \<open>setFormat\<close> fails with \<open>InvalidState\<close> and changes nothing
  while the device streams. Neither backend tests the state in \<open>setFormat\<close>. On a
  USB camera that streams at 640 by 480, \<open>setFormat(320, 240)\<close> succeeds, changes the
  width and replaces the frame buffer by a new block.
\<close>

theorem setFormat_while_streaming_counterexample:
  "u_streaming (fst uvc_streaming_run)
   \<and> fst (uvc_setFormat 320 240 (fst uvc_streaming_run) (snd uvc_streaming_run)) = UOk
   \<and> u_width (fst (snd (uvc_setFormat 320 240 (fst uvc_streaming_run) (snd uvc_streaming_run))))
       \<noteq> u_width (fst uvc_streaming_run)
   \<and> u_frameBuffer (fst (snd (uvc_setFormat 320 240 (fst uvc_streaming_run) (snd uvc_streaming_run))))
       \<noteq> u_frameBuffer (fst uvc_streaming_run)
   \<and> heap_blocks (snd (snd (uvc_setFormat 320 240 (fst uvc_streaming_run) (snd uvc_streaming_run))))
       \<noteq> heap_blocks (snd uvc_streaming_run)"
  by (simp add: uvc_streaming_run_eval uvc_setFormat_def negotiateFormat_def Let_def)

text \<open>
  Claim C3, amended. \<open>setFormat\<close> tests no state. On the USB backend, in every state,
  streaming or not, a size within \<open>int\<close> makes it succeed, store width and height and
  point \<open>frameBuffer_\<close> to a fresh block; the streaming flag stays as it was. On the
  kernel backend, in every state, it succeeds exactly when the descriptor is open and
  the driver accepts the request; the object, the mappings, the buffers of the driver
  and the driver's streaming flag are unchanged either way.
\<close>

theorem setFormat_checks_no_state:
  "(0 \<le> w * h * 2 \<and> w * h * 2 < 2 ^ 31 \<longrightarrow>
      (case uvc_setFormat w h u hst of
         (r, u', hst') \<Rightarrow> r = UOk \<and> u_width u' = w \<and> u_height u' = h
                         \<and> u_frameBuffer u' = Some (next_block hst)
                         \<and> u_streaming u' = u_streaming u))
   \<and> (case setFormat resp w h pf s k of
         (r, s', k') \<Rightarrow> s' = s \<and> (r = Success \<longleftrightarrow> fd_ok k (fd s) \<and> resp \<noteq> None)
                       \<and> mappings k' = mappings k \<and> slots k' = slots k
                       \<and> k_streaming k' = k_streaming k)"
proof -
  have u: "0 \<le> w * h * 2 \<and> w * h * 2 < 2 ^ 31 \<longrightarrow>
      (case uvc_setFormat w h u hst of
         (r, u', hst') \<Rightarrow> r = UOk \<and> u_width u' = w \<and> u_height u' = h
                         \<and> u_frameBuffer u' = Some (next_block hst)
                         \<and> u_streaming u' = u_streaming u)"
  proof
    assume a: "0 \<le> w * h * 2 \<and> w * h * 2 < 2 ^ 31"
    then have "0 \<le> w * h * 2" "w * h * 2 < 2 ^ 31" by blast+
    from sint_int_in_range [OF this]
    have size: "sint (word_of_int (w * h * 2) :: 32 word) = w * h * 2" .
    from a have pos: "\<not> w * h * 2 < 0" by linarith
    show "case uvc_setFormat w h u hst of
         (r, u', hst') \<Rightarrow> r = UOk \<and> u_width u' = w \<and> u_height u' = h
                         \<and> u_frameBuffer u' = Some (next_block hst)
                         \<and> u_streaming u' = u_streaming u"
      unfolding uvc_setFormat_def size using pos by (simp add: negotiateFormat_def Let_def)
  qed
  have v: "case setFormat resp w h pf s k of
         (r, s', k') \<Rightarrow> s' = s \<and> (r = Success \<longleftrightarrow> fd_ok k (fd s) \<and> resp \<noteq> None)
                       \<and> mappings k' = mappings k \<and> slots k' = slots k
                       \<and> k_streaming k' = k_streaming k"
    by (auto simp: setFormat_def k_s_fmt_def split: option.splits)
  from u v show ?thesis by blast
qed

text \<open>The amended claim on the streaming USB camera of the counterexample.\<close>

theorem setFormat_checks_no_state_witness:
  "(0::int) \<le> 320 * 240 * 2 \<and> (320::int) * 240 * 2 < 2 ^ 31
   \<and> u_streaming (fst uvc_streaming_run)
   \<and> fst (uvc_setFormat 320 240 (fst uvc_streaming_run) (snd uvc_streaming_run)) = UOk
   \<and> u_width (fst (snd (uvc_setFormat 320 240 (fst uvc_streaming_run) (snd uvc_streaming_run)))) = 320"
proof -
  let ?u = "fst uvc_streaming_run" and ?h = "snd uvc_streaming_run"
  have size: "(0::int) \<le> 320 * 240 * 2 \<and> (320::int) * 240 * 2 < 2 ^ 31" by simp
  have "case uvc_setFormat 320 240 ?u ?h of
          (r, u', hst') \<Rightarrow> r = UOk \<and> u_width u' = 320 \<and> u_height u' = 240
                          \<and> u_frameBuffer u' = Some (next_block ?h)
                          \<and> u_streaming u' = u_streaming ?u"
    using setFormat_checks_no_state [where w = 320 and h = 240 and u = ?u and hst = ?h
        and resp = None and pf = 0 and s = new_camera and k = kernel0,
        THEN conjunct1, THEN mp, OF size] .
  then have "fst (uvc_setFormat 320 240 ?u ?h) = UOk
             \<and> u_width (fst (snd (uvc_setFormat 320 240 ?u ?h))) = 320"
    by (cases "uvc_setFormat 320 240 ?u ?h") auto
  moreover have "u_streaming ?u" by (simp add: uvc_streaming_run_eval)
  ultimately show ?thesis using size by blast
qed

text \<open>
  Claim C8 says that a successful \<open>setFormat\<close> returns the format the device
  accepted. The function returns a flag and stores nothing: when the driver answers a
  request for 1920 by 1080 YUYV once with 640 by 480 YUYV and once with 320 by 240 MJPEG,
  the value returned to the caller and the camera object are the same in both runs,
  though the accepted formats differ.
\<close>

theorem setFormat_hides_negotiated_counterexample:
  "fst (nativeSetFormat (Some (640, 480, V4L2_PIX_FMT_YUYV)) (Some opened_cam)
          1920 1080 V4L2_PIX_FMT_YUYV opened_kernel)
     = fst (nativeSetFormat (Some (320, 240, V4L2_PIX_FMT_MJPEG)) (Some opened_cam)
          1920 1080 V4L2_PIX_FMT_YUYV opened_kernel)
   \<and> fst (snd (nativeSetFormat (Some (640, 480, V4L2_PIX_FMT_YUYV)) (Some opened_cam)
          1920 1080 V4L2_PIX_FMT_YUYV opened_kernel))
     = fst (snd (nativeSetFormat (Some (320, 240, V4L2_PIX_FMT_MJPEG)) (Some opened_cam)
          1920 1080 V4L2_PIX_FMT_YUYV opened_kernel))
   \<and> k_format (snd (snd (nativeSetFormat (Some (640, 480, V4L2_PIX_FMT_YUYV)) (Some opened_cam)
          1920 1080 V4L2_PIX_FMT_YUYV opened_kernel)))
     \<noteq> k_format (snd (snd (nativeSetFormat (Some (320, 240, V4L2_PIX_FMT_MJPEG)) (Some opened_cam)
          1920 1080 V4L2_PIX_FMT_YUYV opened_kernel)))"
  by (simp add: nativeSetFormat_def setFormat_def k_s_fmt_def fd_ok_def opened_eval
      kernel0_def new_camera_def)

text \<open>
  Claim C8, amended. Whenever the driver accepts a format on an open descriptor,
  \<open>setFormat\<close> returns success and \<open>nativeSetFormat\<close> returns \<open>true\<close>, the
  camera object is unchanged, and the accepted format is held by the driver only: the
  caller gets a flag, whatever format was accepted.
\<close>

theorem setFormat_returns_only_a_flag:
  assumes "fd_ok k (fd s)"
  shows "setFormat (Some f) w h p s k = (Success, s, k\<lparr>k_format := f\<rparr>)
       \<and> nativeSetFormat (Some f) (Some s) w h p k = (True, Some s, k\<lparr>k_format := f\<rparr>)"
  using assms by (simp add: nativeSetFormat_def setFormat_def k_s_fmt_def)

text \<open>The amended claim on the opened camera, where the driver substitutes the format.\<close>

theorem setFormat_returns_only_a_flag_witness:
  "fd_ok opened_kernel (fd opened_cam)
   \<and> nativeSetFormat (Some (320, 240, V4L2_PIX_FMT_MJPEG)) (Some opened_cam)
        640 480 V4L2_PIX_FMT_YUYV opened_kernel
     = (True, Some opened_cam, opened_kernel\<lparr>k_format := (320, 240, V4L2_PIX_FMT_MJPEG)\<rparr>)"
proof -
  have ok: "fd_ok opened_kernel (fd opened_cam)"
    by (simp add: opened_eval fd_ok_def kernel0_def new_camera_def)
  from setFormat_returns_only_a_flag [OF ok] ok show ?thesis by blast
qed

section \<open>Verification: USB discovery\<close>

lemma claim_loop_Some:
  "claim_loop xs n = Some i \<longleftrightarrow>
     n \<le> i \<and> i - n < length xs \<and> is_streaming_interface (xs ! (i - n)) \<and> if_claimable (xs ! (i - n))
     \<and> (\<forall>j<i - n. \<not> (is_streaming_interface (xs ! j) \<and> if_claimable (xs ! j)))"
proof (induction xs arbitrary: n)
  case Nil then show ?case by simp
next
  case (Cons x xs)
  show ?case
  proof (cases "is_streaming_interface x \<and> if_claimable x")
    case True
    then have "claim_loop (x # xs) n = Some n" by (simp add: is_streaming_interface_def)
    moreover have "(n \<le> i \<and> i - n < length (x # xs) \<and> is_streaming_interface ((x # xs) ! (i - n))
        \<and> if_claimable ((x # xs) ! (i - n))
        \<and> (\<forall>j<i - n. \<not> (is_streaming_interface ((x # xs) ! j) \<and> if_claimable ((x # xs) ! j))))
        \<longleftrightarrow> i = n"
      using True by (cases "i - n") auto
    ultimately show ?thesis by auto
  next
    case False
    then have step: "claim_loop (x # xs) n = claim_loop xs (n + 1)"
      by (auto simp: is_streaming_interface_def)
    show ?thesis unfolding step Cons.IH
    proof
      assume a: "n + 1 \<le> i \<and> i - (n + 1) < length xs \<and> is_streaming_interface (xs ! (i - (n + 1)))
        \<and> if_claimable (xs ! (i - (n + 1)))
        \<and> (\<forall>j<i - (n + 1). \<not> (is_streaming_interface (xs ! j) \<and> if_claimable (xs ! j)))"
      then have e: "i - n = Suc (i - (n + 1))" by arith
      have "\<forall>j<i - n. \<not> (is_streaming_interface ((x # xs) ! j) \<and> if_claimable ((x # xs) ! j))"
      proof (intro allI impI)
        fix j assume "j < i - n"
        then show "\<not> (is_streaming_interface ((x # xs) ! j) \<and> if_claimable ((x # xs) ! j))"
          using a False e by (cases j) auto
      qed
      with a e show "n \<le> i \<and> i - n < length (x # xs) \<and> is_streaming_interface ((x # xs) ! (i - n))
        \<and> if_claimable ((x # xs) ! (i - n))
        \<and> (\<forall>j<i - n. \<not> (is_streaming_interface ((x # xs) ! j) \<and> if_claimable ((x # xs) ! j)))"
        by auto
    next
      assume a: "n \<le> i \<and> i - n < length (x # xs) \<and> is_streaming_interface ((x # xs) ! (i - n))
        \<and> if_claimable ((x # xs) ! (i - n))
        \<and> (\<forall>j<i - n. \<not> (is_streaming_interface ((x # xs) ! j) \<and> if_claimable ((x # xs) ! j)))"
      with False have "i - n \<noteq> 0" by (cases "i - n") auto
      then obtain m where m: "i - n = Suc m" by (cases "i - n") auto
      then have e: "i - (n + 1) = m" "n + 1 \<le> i" by arith+
      have "\<forall>j<m. \<not> (is_streaming_interface (xs ! j) \<and> if_claimable (xs ! j))"
      proof (intro allI impI)
        fix j assume "j < m"
        then have "Suc j < i - n" using m by simp
        with a have "\<not> (is_streaming_interface ((x # xs) ! Suc j) \<and> if_claimable ((x # xs) ! Suc j))"
          by blast
        then show "\<not> (is_streaming_interface (xs ! j) \<and> if_claimable (xs ! j))" by simp
      qed
      with a m e show "n + 1 \<le> i \<and> i - (n + 1) < length xs \<and> is_streaming_interface (xs ! (i - (n + 1)))
        \<and> if_claimable (xs ! (i - (n + 1)))
        \<and> (\<forall>j<i - (n + 1). \<not> (is_streaming_interface (xs ! j) \<and> if_claimable (xs ! j)))"
        by auto
    qed
  qed
qed

lemma claim_loop_None:
  "claim_loop xs n = None \<longleftrightarrow> \<not> (\<exists>x\<in>set xs. is_streaming_interface x \<and> if_claimable x)"
  by (induction xs arbitrary: n) (auto simp: is_streaming_interface_def)

lemma endpoint_loop_None:
  "endpoint_loop eps n = None \<longleftrightarrow> (\<forall>ep\<in>set eps. \<not> is_bulk_in ep)"
  by (induction eps arbitrary: n) (auto simp: is_bulk_in_def)

lemma endpoint_loop_Some:
  "endpoint_loop eps n = Some j \<Longrightarrow>
     n \<le> j \<and> j - n < length eps \<and> is_bulk_in (eps ! (j - n))
     \<and> (\<forall>j'<j - n. \<not> is_bulk_in (eps ! j'))"
proof (induction eps arbitrary: n)
  case Nil then show ?case by simp
next
  case (Cons ep eps)
  show ?case
  proof (cases "is_bulk_in ep")
    case True
    with Cons.prems have "j = n" by (simp add: is_bulk_in_def)
    with True show ?thesis by simp
  next
    case False
    with Cons.prems have "endpoint_loop eps (n + 1) = Some j" by (auto simp: is_bulk_in_def)
    from Cons.IH [OF this] have ih: "n + 1 \<le> j" "j - (n + 1) < length eps"
      "is_bulk_in (eps ! (j - (n + 1)))" "\<forall>j'<j - (n + 1). \<not> is_bulk_in (eps ! j')" by auto
    then have e: "j - n = Suc (j - (n + 1))" by arith
    have "\<forall>j'<j - n. \<not> is_bulk_in ((ep # eps) ! j')"
    proof (intro allI impI)
      fix j' assume "j' < j - n"
      then show "\<not> is_bulk_in ((ep # eps) ! j')" using False ih(4) e by (cases j') auto
    qed
    with ih e show ?thesis by auto
  qed
qed

lemma interface_loop_None:
  "interface_loop xs n = None \<longleftrightarrow> (\<forall>x\<in>set xs. \<forall>ep\<in>set (if_endpoints x). \<not> is_bulk_in ep)"
proof (induction xs arbitrary: n)
  case Nil then show ?case by simp
next
  case (Cons x xs)
  show ?case
  proof (cases "endpoint_loop (if_endpoints x) 0")
    case None
    then show ?thesis using Cons.IH [of "n + 1"] endpoint_loop_None [of "if_endpoints x" 0]
      by simp
  next
    case (Some j)
    then have "\<not> (\<forall>ep\<in>set (if_endpoints x). \<not> is_bulk_in ep)"
      using endpoint_loop_None [of "if_endpoints x" 0] by simp
    with Some show ?thesis by simp
  qed
qed

lemma interface_loop_Some:
  "interface_loop xs n = Some (i, j) \<Longrightarrow>
     n \<le> i \<and> i - n < length xs \<and> endpoint_loop (if_endpoints (xs ! (i - n))) 0 = Some j
     \<and> (\<forall>i'<i - n. \<forall>ep\<in>set (if_endpoints (xs ! i')). \<not> is_bulk_in ep)"
proof (induction xs arbitrary: n)
  case Nil then show ?case by simp
next
  case (Cons x xs)
  show ?case
  proof (cases "endpoint_loop (if_endpoints x) 0")
    case (Some j0)
    with Cons.prems have "i = n" "j = j0" by auto
    with Some show ?thesis by simp
  next
    case None
    with Cons.prems have "interface_loop xs (n + 1) = Some (i, j)" by simp
    from Cons.IH [OF this] have ih: "n + 1 \<le> i" "i - (n + 1) < length xs"
      "endpoint_loop (if_endpoints (xs ! (i - (n + 1)))) 0 = Some j"
      "\<forall>i'<i - (n + 1). \<forall>ep\<in>set (if_endpoints (xs ! i')). \<not> is_bulk_in ep" by auto
    then have e: "i - n = Suc (i - (n + 1))" by arith
    have "\<forall>i'<i - n. \<forall>ep\<in>set (if_endpoints ((x # xs) ! i')). \<not> is_bulk_in ep"
    proof (intro allI impI)
      fix i' assume "i' < i - n"
      then show "\<forall>ep\<in>set (if_endpoints ((x # xs) ! i')). \<not> is_bulk_in ep"
        using None ih(4) e by (cases i') (auto simp: endpoint_loop_None)
    qed
    with ih e show ?thesis by auto
  qed
qed

lemma uvc_open_result:
  "fst (uvc_open True dev s h) =
     (case claim_loop dev 0 of
        None \<Rightarrow> UFail NoStreamingInterface
      | Some i \<Rightarrow> (case interface_loop dev 0 of None \<Rightarrow> UFail NoBulkEndpoint | Some ij \<Rightarrow> UOk))"
  by (simp add: uvc_open_def findStreamingInterface_def findBulkEndpoint_def NewGlobalRef_def
      Let_def split: option.splits)

lemma uvc_open_ok:
  assumes "fst (uvc_open True dev s h) = UOk"
  shows "\<exists>i a b. claim_loop dev 0 = Some i \<and> interface_loop dev 0 = Some (a, b)
           \<and> claimed (snd (snd (uvc_open True dev s h))) = i # claimed h
           \<and> u_endpoint_at (fst (snd (uvc_open True dev s h))) = Some (a, b)"
  using assms
  by (auto simp: uvc_open_def findStreamingInterface_def findBulkEndpoint_def NewGlobalRef_def
      Let_def split: option.splits)


lemmas uvc_eval = uvc_open_def findStreamingInterface_def findBulkEndpoint_def NewGlobalRef_def
  host0_def new_uvc_camera_def bulk_in_def interrupt_in_def UVC_INTERFACE_CLASS_def
  UVC_INTERFACE_SUBCLASS_STREAMING_def Let_def

text \<open>
  Claim C9 says that the first interface of the streaming class is the one claimed, that
  a refused claim fails the call, and that the endpoint is looked for on the claimed
  interface. On a device whose streaming interface (index 1) has no endpoint and whose
  control interface (index 0) has a bulk IN endpoint, \<open>open\<close> succeeds with the
  endpoint of interface 0; on a device whose first streaming interface refuses the
  claim, \<open>open\<close> succeeds on the second.
\<close>

theorem uvc_open_discovery_counterexample:
  "fst (uvc_open True odd_cam new_uvc_camera host0) = UOk
   \<and> claimed (snd (snd (uvc_open True odd_cam new_uvc_camera host0))) = [1]
   \<and> if_endpoints (odd_cam ! 1) = []
   \<and> u_endpoint_at (fst (snd (uvc_open True odd_cam new_uvc_camera host0))) = Some (0, 0)
   \<and> is_streaming_interface (busy_cam ! 0) \<and> \<not> if_claimable (busy_cam ! 0)
   \<and> fst (uvc_open True busy_cam new_uvc_camera host0) = UOk
   \<and> claimed (snd (snd (uvc_open True busy_cam new_uvc_camera host0))) = [1]"
  by (simp add: uvc_eval odd_cam_def busy_cam_def is_streaming_interface_def)


text \<open>
  Claim C9, amended. For every device descriptor, \<open>open\<close> of the USB backend (with
  the host classes found) fails with \<open>NoStreamingInterface\<close> exactly when no interface
  of the streaming class and subclass grants the claim; it fails with \<open>NoBulkEndpoint\<close>
  exactly when such an interface exists and no interface of the device, claimed or not,
  has a bulk IN endpoint; and when it succeeds, the interface claimed is the first one of
  the streaming class and subclass that grants the claim (earlier ones that refuse are
  passed over), and the endpoint kept is the first bulk IN endpoint of the first
  interface of the whole device that has one.
\<close>

theorem uvc_open_discovery:
  "(fst (uvc_open True dev s h) = UFail NoStreamingInterface
      \<longleftrightarrow> \<not> (\<exists>x\<in>set dev. is_streaming_interface x \<and> if_claimable x))
   \<and> (fst (uvc_open True dev s h) = UFail NoBulkEndpoint
      \<longleftrightarrow> (\<exists>x\<in>set dev. is_streaming_interface x \<and> if_claimable x)
          \<and> \<not> (\<exists>x\<in>set dev. \<exists>ep\<in>set (if_endpoints x). is_bulk_in ep))
   \<and> (fst (uvc_open True dev s h) = UOk \<longrightarrow>
        (\<exists>i a b. claimed (snd (snd (uvc_open True dev s h))) = i # claimed h
           \<and> i < length dev \<and> is_streaming_interface (dev ! i) \<and> if_claimable (dev ! i)
           \<and> (\<forall>i'<i. \<not> (is_streaming_interface (dev ! i') \<and> if_claimable (dev ! i')))
           \<and> u_endpoint_at (fst (snd (uvc_open True dev s h))) = Some (a, b)
           \<and> a < length dev \<and> b < length (if_endpoints (dev ! a))
           \<and> is_bulk_in (if_endpoints (dev ! a) ! b)
           \<and> (\<forall>b'<b. \<not> is_bulk_in (if_endpoints (dev ! a) ! b'))
           \<and> (\<forall>a'<a. \<forall>ep\<in>set (if_endpoints (dev ! a')). \<not> is_bulk_in ep)))"
proof (intro conjI impI)
  show "fst (uvc_open True dev s h) = UFail NoStreamingInterface
      \<longleftrightarrow> \<not> (\<exists>x\<in>set dev. is_streaming_interface x \<and> if_claimable x)"
    unfolding uvc_open_result claim_loop_None [of dev 0, symmetric]
    by (simp split: option.splits)
next
  show "fst (uvc_open True dev s h) = UFail NoBulkEndpoint
      \<longleftrightarrow> (\<exists>x\<in>set dev. is_streaming_interface x \<and> if_claimable x)
          \<and> \<not> (\<exists>x\<in>set dev. \<exists>ep\<in>set (if_endpoints x). is_bulk_in ep)"
    using claim_loop_None [of dev 0] interface_loop_None [of dev 0]
    unfolding uvc_open_result by (auto split: option.splits)
next
  assume "fst (uvc_open True dev s h) = UOk"
  from uvc_open_ok [OF this] obtain i a b where
    c: "claim_loop dev 0 = Some i" and f: "interface_loop dev 0 = Some (a, b)"
    and r: "claimed (snd (snd (uvc_open True dev s h))) = i # claimed h"
       "u_endpoint_at (fst (snd (uvc_open True dev s h))) = Some (a, b)" by blast
  from c have ci: "i < length dev" "is_streaming_interface (dev ! i)" "if_claimable (dev ! i)"
    "\<forall>i'<i. \<not> (is_streaming_interface (dev ! i') \<and> if_claimable (dev ! i'))"
    by (simp_all add: claim_loop_Some)
  from interface_loop_Some [OF f] have fa: "a < length dev"
    "endpoint_loop (if_endpoints (dev ! a)) 0 = Some b"
    "\<forall>a'<a. \<forall>ep\<in>set (if_endpoints (dev ! a')). \<not> is_bulk_in ep" by simp_all
  from endpoint_loop_Some [OF fa(2)] have fb: "b < length (if_endpoints (dev ! a))"
    "is_bulk_in (if_endpoints (dev ! a) ! b)" "\<forall>b'<b. \<not> is_bulk_in (if_endpoints (dev ! a) ! b')"
    by simp_all
  show "\<exists>i a b. claimed (snd (snd (uvc_open True dev s h))) = i # claimed h
           \<and> i < length dev \<and> is_streaming_interface (dev ! i) \<and> if_claimable (dev ! i)
           \<and> (\<forall>i'<i. \<not> (is_streaming_interface (dev ! i') \<and> if_claimable (dev ! i')))
           \<and> u_endpoint_at (fst (snd (uvc_open True dev s h))) = Some (a, b)
           \<and> a < length dev \<and> b < length (if_endpoints (dev ! a))
           \<and> is_bulk_in (if_endpoints (dev ! a) ! b)
           \<and> (\<forall>b'<b. \<not> is_bulk_in (if_endpoints (dev ! a) ! b'))
           \<and> (\<forall>a'<a. \<forall>ep\<in>set (if_endpoints (dev ! a')). \<not> is_bulk_in ep)"
    using r ci fa(1,3) fb by blast
qed

text \<open>The amended claim on a device with no interface, and on an ordinary camera.\<close>

theorem uvc_open_discovery_witness:
  "fst (uvc_open True [] new_uvc_camera host0) = UFail NoStreamingInterface
   \<and> fst (uvc_open True webcam new_uvc_camera host0) = UOk
   \<and> (\<exists>i a b. claimed (snd (snd (uvc_open True webcam new_uvc_camera host0))) = i # claimed host0
          \<and> is_streaming_interface (webcam ! i)
          \<and> u_endpoint_at (fst (snd (uvc_open True webcam new_uvc_camera host0))) = Some (a, b)
          \<and> is_bulk_in (if_endpoints (webcam ! a) ! b))"
proof -
  have none: "\<not> (\<exists>x\<in>set ([] :: usb_device). is_streaming_interface x \<and> if_claimable x)" by simp
  have ok: "fst (uvc_open True webcam new_uvc_camera host0) = UOk"
    by (simp add: uvc_eval webcam_def)
  note d0 = uvc_open_discovery [where dev = "[]" and s = new_uvc_camera and h = host0]
  note d1 = uvc_open_discovery [where dev = webcam and s = new_uvc_camera and h = host0]
  from d0 none have "fst (uvc_open True [] new_uvc_camera host0) = UFail NoStreamingInterface"
    by blast
  moreover from d1 [THEN conjunct2, THEN conjunct2, THEN mp, OF ok]
  have "\<exists>i a b. claimed (snd (snd (uvc_open True webcam new_uvc_camera host0))) = i # claimed host0
          \<and> is_streaming_interface (webcam ! i)
          \<and> u_endpoint_at (fst (snd (uvc_open True webcam new_uvc_camera host0))) = Some (a, b)
          \<and> is_bulk_in (if_endpoints (webcam ! a) ! b)"
    by blast
  ultimately show ?thesis using ok by blast
qed

text \<open>
  Claim C5. In every state in which no buffer is in flight, \<open>releaseFrame\<close> changes
  nothing, on both backends: the kernel backend issues \<open>VIDIOC_QBUF\<close> on whatever
  \<open>current_buffer_\<close> holds, which is either refused (and only logged) or queues a
  buffer that is already in the free-or-queued state; the USB backend has an empty body.
  Neither returns an error (both are \<open>void\<close>).
\<close>

theorem releaseFrame_without_inflight:
  assumes "InFlight \<notin> set (slots k)"
  shows "releaseFrame fault s k = (s, k) \<and> uvc_releaseFrame u h = (u, h)"
proof -
  have "k_qbuf k (fd s) (current_buffer s) fault = None \<or> k_qbuf k (fd s) (current_buffer s) fault = Some k"
  proof (cases "k_qbuf k (fd s) (current_buffer s) fault")
    case None then show ?thesis by simp
  next
    case (Some k1)
    then have i: "b_index (current_buffer s) < length (slots k)"
      and k1: "k1 = k\<lparr>slots := (slots k)[b_index (current_buffer s) := Queued]\<rparr>"
      by (auto simp: k_qbuf_def split: if_splits)
    from i assms have "slots k ! b_index (current_buffer s) = Queued"
      by (metis nth_mem occupancy.exhaust)
    then have "(slots k)[b_index (current_buffer s) := Queued] = slots k"
      by (metis list_update_id)
    with k1 Some show ?thesis by simp
  qed
  then show ?thesis by (auto simp: releaseFrame_def uvc_releaseFrame_def)
qed

text \<open>On the streaming camera with all four buffers queued, and on a camera never opened.\<close>

theorem releaseFrame_without_inflight_witness:
  "InFlight \<notin> set (slots streaming_kernel)
   \<and> releaseFrame False streaming_cam streaming_kernel = (streaming_cam, streaming_kernel)
   \<and> releaseFrame False new_camera kernel0 = (new_camera, kernel0)"
proof -
  have a: "InFlight \<notin> set (slots streaming_kernel)" by (simp add: streaming_eval)
  have b: "InFlight \<notin> set (slots kernel0)" by (simp add: kernel0_def)
  from releaseFrame_without_inflight [OF a] releaseFrame_without_inflight [OF b] a
  show ?thesis by blast
qed

lemma map_loop_slots:
  "map_loop e h is ps bs k = (r, ps', bs', k') \<Longrightarrow> slots k' = slots k"
proof (induction "is" arbitrary: ps bs k)
  case Nil then show ?case by simp
next
  case (Cons i "is")
  show ?case
  proof (cases "k_querybuf k h i (querybuf_resp e i)")
    case None with Cons.prems show ?thesis by simp
  next
    case (Some lo)
    obtain len off where lo: "lo = (len, off)" by (cases lo)
    obtain p k1 where mm: "k_mmap k h len (mmap_ok e i) = (p, k1)"
      by (cases "k_mmap k h len (mmap_ok e i)")
    then have s1: "slots k1 = slots k" by (auto simp: k_mmap_def split: if_splits)
    show ?thesis
    proof (cases "p = MapFailed")
      case True with Cons.prems Some lo mm s1 show ?thesis by auto
    next
      case False
      with Cons.prems Some lo mm
      have "\<exists>ps1 bs1. map_loop e h is ps1 bs1 k1 = (r, ps', bs', k')" by auto
      then show ?thesis using Cons.IH s1 by auto
    qed
  qed
qed

lemma initBuffers_success_slots:
  assumes "initBuffers e s k = (Success, s', k')"
  shows "InFlight \<notin> set (slots k')"
proof (cases "k_reqbufs k (fd s) (reqbufs_resp e)")
  case None with assms show ?thesis by (simp add: initBuffers_def)
next
  case (Some nk)
  obtain c k1 where nk: "nk = (c, k1)" by (cases nk)
  from Some nk have k1: "slots k1 = replicate (unat c) Queued"
    by (auto simp: k_reqbufs_def split: if_splits option.splits)
  define n where "n = nat (sint c)"
  obtain r ps bs k2 where ml: "map_loop e (fd s) [0..<n] (map (garbage_start e) [0..<n])
                     (map (garbage_buf e) [0..<n]) k1 = (r, ps, bs, k2)"
    by (metis prod_cases4)
  from assms Some nk ml have "k' = k2"
    by (auto simp: initBuffers_def Let_def n_def split: if_splits option.splits prod.splits)
  with map_loop_slots [OF ml] k1 show ?thesis by simp
qed

lemma queue_loop_no_inflight:
  "InFlight \<notin> set (slots k) \<Longrightarrow> InFlight \<notin> set (slots (snd (queue_loop e h is k)))"
proof (induction "is" arbitrary: k)
  case Nil then show ?case by simp
next
  case (Cons i "is")
  let ?b = "zero_buffer\<lparr>b_type := V4L2_BUF_TYPE_VIDEO_CAPTURE,
                          b_memory := V4L2_MEMORY_MMAP, b_index := i\<rparr>"
  show ?case
  proof (cases "k_qbuf k h ?b (qbuf_fault e i)")
    case None with Cons.prems show ?thesis by simp
  next
    case (Some k1)
    then have "slots k1 = (slots k)[b_index ?b := Queued]"
      by (auto simp: k_qbuf_def split: if_splits)
    with Cons.prems have "InFlight \<notin> set (slots k1)"
      using set_update_subset_insert [of "slots k" "b_index ?b" Queued] by auto
    from Cons.IH [OF this] Some show ?thesis by simp
  qed
qed

lemma startStreaming_success_no_inflight:
  assumes "startStreaming e s k = (Success, s', k')"
  shows "InFlight \<notin> set (slots k')"
proof -
  obtain r1 s1 k1 where ib: "initBuffers (init e) s k = (r1, s1, k1)" by (metis prod_cases3)
  with assms have r1: "r1 = Success" by (cases r1) (auto simp: startStreaming_def)
  from initBuffers_success_slots ib r1 have n1: "InFlight \<notin> set (slots k1)" by blast
  obtain q k2 where ql: "queue_loop e (fd s1) [0..<nat (buffer_count s1)] k1 = (q, k2)"
    by (cases "queue_loop e (fd s1) [0..<nat (buffer_count s1)] k1")
  from queue_loop_no_inflight [OF n1, of e "fd s1" "[0..<nat (buffer_count s1)]"] ql
  have n2: "InFlight \<notin> set (slots k2)" by simp
  from assms ib r1 ql have "slots k' = slots k2"
    by (auto simp: startStreaming_def k_streamon_def split: bool.splits option.splits if_splits)
  with n2 show ?thesis by simp
qed

lemma filter_update_inflight:
  "InFlight \<notin> set xs \<Longrightarrow> length (filter (\<lambda>x. x = InFlight) (xs[i := InFlight])) \<le> 1"
proof (induction xs arbitrary: i)
  case Nil then show ?case by simp
next
  case (Cons x xs)
  then have "filter (\<lambda>x. x = InFlight) xs = []" by (auto simp: filter_empty_conv)
  with Cons show ?case by (cases i) auto
qed

lemma no_inflight_count: "InFlight \<notin> set (slots k) \<Longrightarrow> inflight_count k = 0"
  by (auto simp: inflight_count_def filter_empty_conv)

lemma getFrame_frame:
  assumes "getFrame resp s k = (Frame p n, s1, k1)" and "InFlight \<notin> set (slots k)"
  shows "inflight_count k1 \<le> 1 \<and> fd s1 = fd s \<and> fd_ok k1 (fd s)
       \<and> b_type (current_buffer s1) = V4L2_BUF_TYPE_VIDEO_CAPTURE
       \<and> b_memory (current_buffer s1) = V4L2_MEMORY_MMAP
       \<and> b_index (current_buffer s1) < length (slots k)
       \<and> slots k1 = (slots k)[b_index (current_buffer s1) := InFlight]"
  using assms filter_update_inflight [of "slots k"]
  by (auto simp: getFrame_def k_dqbuf_def Let_def inflight_count_def fd_ok_def
      split: if_splits dq_result.splits dq_resp.splits option.splits)

lemma getFrame_other:
  assumes "getFrame resp s k = (r, s1, k1)" and "\<forall>p n. r \<noteq> Frame p n"
    and "InFlight \<notin> set (slots k)"
  shows "inflight_count k1 \<le> 1 \<and> (r \<noteq> Crash \<longrightarrow> k1 = k)"
proof -
  from assms(3) have f0: "filter (\<lambda>x. x = InFlight) (slots k) = []"
    by (auto simp: filter_empty_conv)
  show ?thesis
    using assms(1,2) f0 filter_update_inflight [OF assms(3)]
    by (auto simp: getFrame_def k_dqbuf_def Let_def inflight_count_def
        split: if_splits dq_result.splits dq_resp.splits option.splits)
qed

lemma frame_loop_inv:
  assumes "InFlight \<notin> set (slots k)" and "\<forall>st\<in>set steps. \<not> release_fault st"
  shows "\<forall>k'\<in>set (frame_loop steps s k). inflight_count k' \<le> 1"
  using assms
proof (induction steps arbitrary: s k)
  case Nil then show ?case by simp
next
  case (Cons st rest)
  obtain r s1 k1 where gf: "getFrame (dq st) s k = (r, s1, k1)" by (metis prod_cases3)
  from Cons.prems(2) have nf: "\<not> release_fault st" and rest: "\<forall>st\<in>set rest. \<not> release_fault st"
    by auto
  show ?case
  proof (cases r)
    case (Frame p n)
    from getFrame_frame [OF gf [unfolded Frame] Cons.prems(1)]
    have g: "inflight_count k1 \<le> 1" "fd s1 = fd s" "fd_ok k1 (fd s)"
      "b_type (current_buffer s1) = V4L2_BUF_TYPE_VIDEO_CAPTURE"
      "b_memory (current_buffer s1) = V4L2_MEMORY_MMAP"
      "b_index (current_buffer s1) < length (slots k)"
      "slots k1 = (slots k)[b_index (current_buffer s1) := InFlight]" by auto
    let ?k2 = "k1\<lparr>slots := (slots k1)[b_index (current_buffer s1) := Queued]\<rparr>"
    from g nf have rel: "releaseFrame (release_fault st) s1 k1 = (s1, ?k2)"
      by (simp add: releaseFrame_def k_qbuf_def)
    have "slots ?k2 = (slots k)[b_index (current_buffer s1) := Queued]" using g(7) by simp
    with Cons.prems(1) have n2: "InFlight \<notin> set (slots ?k2)"
      using set_update_subset_insert [of "slots k" "b_index (current_buffer s1)" Queued] by auto
    from Cons.IH [OF n2 rest, of s1] no_inflight_count [OF n2] g(1) gf Frame rel
    show ?thesis by simp
  next
    case (NoFrame err)
    from getFrame_other [OF gf _ Cons.prems(1)] NoFrame
    have "inflight_count k1 \<le> 1" "k1 = k" by auto
    with Cons.IH [OF Cons.prems(1) rest, of s1] gf NoFrame show ?thesis by simp
  next
    case Crash
    from getFrame_other [OF gf _ Cons.prems(1)] Crash have "inflight_count k1 \<le> 1" by auto
    with gf Crash show ?thesis by simp
  qed
qed

text \<open>
  Claim C4 says that a caller that releases each frame before it asks for another never
  has more than one buffer in flight. \<open>releaseFrame\<close> only logs a re-queue that the
  driver refuses: when the first re-queue hits a device fault, the buffer stays with the
  caller, and after the next \<open>getFrame\<close> two buffers are in flight.
\<close>

theorem single_inflight_frame_counterexample:
  "map release_fault faulty_rounds = [True, False]
   \<and> map inflight_count (frame_loop faulty_rounds streaming_cam streaming_kernel) = [1, 1, 2, 1]"
  by (simp add: faulty_rounds_def getFrame_def k_dqbuf_def releaseFrame_def k_qbuf_def
      streaming_eval fd_ok_def inflight_count_def Let_def zero_buffer_def
      V4L2_BUF_TYPE_VIDEO_CAPTURE_def V4L2_MEMORY_MMAP_def)

text \<open>
  Claim C4, amended. For every format that \<open>setFormat\<close> accepts, every successful
  \<open>startStreaming\<close> after it, and every number of rounds in which the caller asks for
  a frame and releases the frame it got before asking again, and in which no re-queue
  of a released frame hits a device fault, at most one buffer is in flight after every
  call, whichever buffers the driver hands out and whenever it has none ready.
\<close>

theorem single_inflight_frame:
  assumes "setFormat resp w h pf s0 k0 = (Success, s1, k1)"
    and "startStreaming e s1 k1 = (Success, s2, k2)"
    and "\<forall>st\<in>set steps. \<not> release_fault st"
  shows "\<forall>k\<in>set (frame_loop steps s2 k2). inflight_count k \<le> 1"
  using frame_loop_inv [OF startStreaming_success_no_inflight [OF assms(2)] assms(3)] .

lemma three_rounds_counts:
  "map inflight_count (frame_loop three_rounds streaming_cam streaming_kernel) = [1, 0, 0, 1, 0]"
  by (simp add: three_rounds_def getFrame_def k_dqbuf_def releaseFrame_def k_qbuf_def
      streaming_eval fd_ok_def inflight_count_def Let_def zero_buffer_def
      V4L2_BUF_TYPE_VIDEO_CAPTURE_def V4L2_MEMORY_MMAP_def)

text \<open>
  The reference scenario with three rounds: the count of buffers in flight goes
  1, 0, 0, 1, 0.
\<close>

theorem single_inflight_frame_witness:
  "setFormat (Some (640, 480, V4L2_PIX_FMT_YUYV)) 640 480 V4L2_PIX_FMT_YUYV opened_cam opened_kernel
     = (Success, opened_cam, formatted_kernel)
   \<and> startStreaming good_env opened_cam formatted_kernel = (Success, streaming_cam, streaming_kernel)
   \<and> map release_fault three_rounds = [False, False, False]
   \<and> list_all (\<lambda>k. inflight_count k \<le> 1) (frame_loop three_rounds streaming_cam streaming_kernel)
   \<and> map inflight_count (frame_loop three_rounds streaming_cam streaming_kernel) = [1, 0, 0, 1, 0]"
proof -
  have a: "setFormat (Some (640, 480, V4L2_PIX_FMT_YUYV)) 640 480 V4L2_PIX_FMT_YUYV opened_cam
             opened_kernel = (Success, opened_cam, formatted_kernel)"
    by (simp add: formatted_kernel_def setFormat_def k_s_fmt_def fd_ok_def opened_eval kernel0_def
        new_camera_def)
  have b: "startStreaming good_env opened_cam formatted_kernel
             = (Success, streaming_cam, streaming_kernel)"
    by (rule streaming_eval(1))
  have c: "\<forall>st\<in>set three_rounds. \<not> release_fault st" by (simp add: three_rounds_def)
  have d: "map release_fault three_rounds = [False, False, False]" by (simp add: three_rounds_def)
  from single_inflight_frame [OF a b c]
  have "list_all (\<lambda>k. inflight_count k \<le> 1) (frame_loop three_rounds streaming_cam streaming_kernel)"
    by (simp add: list_all_iff)
  with a b d three_rounds_counts show ?thesis by blast
qed

section \<open>Verification: the native binding\<close>

lemma releaseFrame_after_frame:
  assumes "getFrame resp s k = (Frame p n, s1, k1)" and "InFlight \<notin> set (slots k)"
  shows "InFlight \<notin> set (slots (snd (releaseFrame False s1 k1)))"
proof -
  from getFrame_frame [OF assms]
  have g: "fd s1 = fd s" "fd_ok k1 (fd s)"
    "b_type (current_buffer s1) = V4L2_BUF_TYPE_VIDEO_CAPTURE"
    "b_memory (current_buffer s1) = V4L2_MEMORY_MMAP"
    "b_index (current_buffer s1) < length (slots k)"
    "slots k1 = (slots k)[b_index (current_buffer s1) := InFlight]" by auto
  then have "slots (snd (releaseFrame False s1 k1)) = (slots k)[b_index (current_buffer s1) := Queued]"
    by (simp add: releaseFrame_def k_qbuf_def)
  with assms(2) show ?thesis
    using set_update_subset_insert [of "slots k" "b_index (current_buffer s1)" Queued] by auto
qed


text \<open>
  Claim C10 says that every call of \<open>nativeGetFrame\<close> that obtains a frame copies it
  into a freshly allocated array. The code guards the copy with \<open>if (result)\<close>: when
  \<open>NewByteArray\<close> fails, the call that has obtained a frame copies nothing, releases
  the frame and returns null, and the managed heap holds no new array.
\<close>

theorem nativeGetFrame_copy_counterexample:
  "fst (getFrame (DqReady 0 614400) streaming_cam streaming_kernel) = Frame (Addr 4096) 614400
   \<and> fst (nativeGetFrame (DqReady 0 614400) False False ramp (Some streaming_cam) streaming_kernel jvm0)
       = Returned None
   \<and> arrays (snd (snd (snd
         (nativeGetFrame (DqReady 0 614400) False False ramp (Some streaming_cam) streaming_kernel jvm0))))
       = arrays jvm0"
  by (simp add: nativeGetFrame_def getFrame_def k_dqbuf_def releaseFrame_def k_qbuf_def
      streaming_eval fd_ok_def Let_def zero_buffer_def jvm0_def
      V4L2_BUF_TYPE_VIDEO_CAPTURE_def V4L2_MEMORY_MMAP_def)

text \<open>
  Claim C10, amended. For every completed call of \<open>nativeGetFrame\<close> on a camera with
  no buffer in flight: if \<open>getFrame\<close> obtained a frame, the call ends with
  \<open>releaseFrame\<close> on the state that \<open>getFrame\<close> left, whether or not the array
  could be allocated; if the allocation succeeded (\<open>NewByteArray\<close> can allocate and
  the size, an \<open>int\<close>, is not negative), the value returned is a reference
  that the managed heap did not hold before, to an array whose content is the bytes read
  through the frame pointer inside a live mapping, so it is a copy in the managed heap
  and not the mapped buffer; if it did not, the call returns null and the managed heap
  is as it was; and when the driver honours the re-queue, no buffer is in
  flight after the call.
\<close>

theorem nativeGetFrame_copies_and_releases:
  assumes "InFlight \<notin> set (slots k)" and "jvm_ok j"
    and "nativeGetFrame resp alloc_ok fault mem (Some s) k j = (Returned res, cam', k', j')"
  shows "(\<forall>p n s1 k1. getFrame resp s k = (Frame p n, s1, k1) \<longrightarrow>
            cam' = Some (fst (releaseFrame fault s1 k1)) \<and> k' = snd (releaseFrame fault s1 k1)
            \<and> (alloc_ok \<and> 0 \<le> n \<longrightarrow>
                 (\<exists>a r. p = Addr a \<and> readable k1 a (nat n) \<and> res = Some r
                    \<and> r \<notin> fst ` set (arrays j)
                    \<and> arrays j' = (r, read_bytes mem a (nat n)) # arrays j))
            \<and> (\<not> (alloc_ok \<and> 0 \<le> n) \<longrightarrow> res = None \<and> j' = j))
       \<and> (\<not> fault \<longrightarrow> InFlight \<notin> set (slots k'))"
proof (intro conjI allI impI)
  fix p n s1 k1
  assume gf: "getFrame resp s k = (Frame p n, s1, k1)"
  from assms(3) gf show "cam' = Some (fst (releaseFrame fault s1 k1))"
    and "k' = snd (releaseFrame fault s1 k1)"
    by (auto simp: nativeGetFrame_def Let_def split: if_splits ptr.splits prod.splits)
  {
    assume "\<not> (alloc_ok \<and> 0 \<le> n)"
    with assms(3) gf show "res = None" and "j' = j"
      by (auto simp: nativeGetFrame_def Let_def split: if_splits ptr.splits prod.splits)
  }
  assume ok: "alloc_ok \<and> 0 \<le> n"
  from assms(2) have fresh: "next_array j \<notin> fst ` set (arrays j)"
    by (auto simp: jvm_ok_def list_all_iff)
  from assms(3) gf ok fresh
  show "\<exists>a r. p = Addr a \<and> readable k1 a (nat n) \<and> res = Some r
                    \<and> r \<notin> fst ` set (arrays j)
                    \<and> arrays j' = (r, read_bytes mem a (nat n)) # arrays j"
    by (auto simp: nativeGetFrame_def Let_def split: if_splits ptr.splits prod.splits)
next
  assume nf: "\<not> fault"
  obtain r s1 k1 where gf: "getFrame resp s k = (r, s1, k1)" by (metis prod_cases3)
  show "InFlight \<notin> set (slots k')"
  proof (cases r)
    case (Frame p n)
    from releaseFrame_after_frame [OF gf [unfolded Frame] assms(1)]
    have "InFlight \<notin> set (slots (snd (releaseFrame False s1 k1)))" .
    moreover from assms(3) gf Frame nf have "k' = snd (releaseFrame False s1 k1)"
      by (auto simp: nativeGetFrame_def Let_def split: if_splits ptr.splits prod.splits)
    ultimately show ?thesis by simp
  next
    case (NoFrame err)
    from getFrame_other [OF gf _ assms(1)] NoFrame have "k1 = k" by auto
    moreover from assms(3) gf NoFrame have "k' = k1" by (simp add: nativeGetFrame_def)
    ultimately show ?thesis using assms(1) by simp
  next
    case Crash
    with assms(3) gf show ?thesis by (simp add: nativeGetFrame_def)
  qed
qed


lemma native_frame_eval:
  "fst (getFrame (DqReady 0 614400) streaming_cam streaming_kernel) = Frame (Addr 4096) 614400"
  "fst (nativeGetFrame (DqReady 0 614400) True False ramp (Some streaming_cam) streaming_kernel jvm0)
     = Returned (Some 0)"
  by (simp_all add: nativeGetFrame_def getFrame_def k_dqbuf_def releaseFrame_def k_qbuf_def
      streaming_eval fd_ok_def Let_def zero_buffer_def readable_def jvm0_def
      V4L2_BUF_TYPE_VIDEO_CAPTURE_def V4L2_MEMORY_MMAP_def)

text \<open>The streaming camera of the reference scenario hands out its first buffer.\<close>

theorem nativeGetFrame_copies_and_releases_witness:
  "InFlight \<notin> set (slots streaming_kernel) \<and> jvm_ok jvm0
   \<and> fst (nativeGetFrame (DqReady 0 614400) True False ramp (Some streaming_cam) streaming_kernel jvm0)
       = Returned (Some 0)
   \<and> InFlight \<notin> set (slots (fst (snd (snd
         (nativeGetFrame (DqReady 0 614400) True False ramp (Some streaming_cam) streaming_kernel jvm0)))))
   \<and> arrays (snd (snd (snd
         (nativeGetFrame (DqReady 0 614400) True False ramp (Some streaming_cam) streaming_kernel jvm0))))
       = [(0, read_bytes ramp 4096 614400)]"
proof -
  let ?run = "nativeGetFrame (DqReady 0 614400) True False ramp (Some streaming_cam)
                streaming_kernel jvm0"
  have a: "InFlight \<notin> set (slots streaming_kernel)" by (simp add: streaming_eval)
  have b: "jvm_ok jvm0" by (simp add: jvm_ok_def jvm0_def)
  obtain cam' k' j' where run: "?run = (Returned (Some 0), cam', k', j')"
    using native_frame_eval(2) by (cases ?run) auto
  obtain s1 k1 where gf: "getFrame (DqReady 0 614400) streaming_cam streaming_kernel
                            = (Frame (Addr 4096) 614400, s1, k1)"
    using native_frame_eval(1)
    by (cases "getFrame (DqReady 0 614400) streaming_cam streaming_kernel") auto
  note t = nativeGetFrame_copies_and_releases [OF a b run]
  from t have c: "InFlight \<notin> set (slots k')" by blast
  from t gf have "\<exists>a r. Addr 4096 = Addr a \<and> readable k1 a (nat 614400) \<and> Some 0 = Some r
       \<and> r \<notin> fst ` set (arrays jvm0)
       \<and> arrays j' = (r, read_bytes ramp a (nat 614400)) # arrays jvm0"
    by blast
  then have d: "arrays j' = [(0, read_bytes ramp 4096 614400)]" by (auto simp: jvm0_def)
  from a b c d run show ?thesis by simp
qed



section \<open>Verification: ownership of the descriptor\<close>
























section \<open>Verification: close\<close>

lemmas run_eval = open_def k_open_def queryCapabilities_def caps_ok_def
  V4L2_CAP_VIDEO_CAPTURE_def V4L2_CAP_STREAMING_def setFormat_def k_s_fmt_def
  stopStreaming_def k_streamoff_def close_def freeBuffers_def k_munmap_def k_close_def
  good_env_def yuyv_640_def start_eval replicate_4

text \<open>
  Claim C7 says that \<open>close\<close>, from every reachable state, leaves the camera closed
  with zero live mappings. \<open>initBuffers\<close> overwrites \<open>buffers_\<close> and
  \<open>buffer_start_\<close> without looking at a pool that is still there, so a second
  \<open>startStreaming\<close> loses the pool of the first: after open, set format, start, stop,
  set format, start and close, the camera is closed and holds no pool, no \<open>munmap\<close>
  went wrong, and the four mappings of the first pool are still live.
\<close>

theorem close_after_restart_leaves_mappings:
  "map_option (\<lambda>c. (fd (fst c), buffer_start (fst c), mappings (snd c), bad_munmaps (snd c)))
     (run restart_ops (new_camera, kernel0))
   = Some (- 1, None, [(4096, 614400), (618497, 614400), (1232898, 614400), (1847299, 614400)], 0)"
  by (simp add: restart_ops_def run_eval)

end
